theory Spec2Isabelle
  imports Complex_Main "HOL-Library.Multiset"
begin

section \<open>Data model of the reader (src/types.ts, src/components/SmartReader.tsx)\<close>

text \<open>
  JavaScript numbers are embedded as \<^typ>\<open>real\<close>: the arithmetic of the reader
  (differences, quotients, comparisons against small constants) is read exactly, without
  the rounding of IEEE doubles and without \<open>NaN\<close> or infinities. Page indices and
  counters are \<^typ>\<open>nat\<close> or \<^typ>\<open>int\<close>, strings are \<^typ>\<open>string\<close>.
  Record fields carry a prefix where the TypeScript name is shared by several interfaces
  (\<open>x\<close>, \<open>y\<close>, \<open>width\<close>, \<open>height\<close>).
\<close>

record DrawingPoint =
  px :: real
  py :: real

record DrawingPath =
  points :: "DrawingPoint list"
  color :: string
  width :: real

record PageAnnotation =
  pageIndex :: nat
  path :: DrawingPath

datatype Mode = Pen | Move | Highlighter

text \<open>The tool settings a page receives as props.\<close>

record Tools =
  mode :: Mode
  penColor :: string
  penWidth :: real
  highlighterColor :: string
  highlighterWidth :: real

text \<open>
  The backing raster of a page. The DOM stores \<open>canvas.width\<close> and
  \<open>canvas.height\<close> as unsigned integers.
\<close>

record Canvas =
  cv_width :: nat
  cv_height :: nat

text \<open>
  A mouse or touch event as \<open>getPoint\<close> reads it: the client coordinates of the
  pointer (of \<open>touches[0]\<close> for a touch event) and the left and top edge of the
  canvas's bounding rectangle at the time of the event.
\<close>

record PointerEvent =
  clientX :: real
  clientY :: real
  rectLeft :: real
  rectTop :: real

text \<open>The local state of one \<open>PDFPage\<close> component that the drawing handlers use.\<close>

record PageState =
  isDrawing :: bool
  currentPath :: "DrawingPoint list"
  canvasRef :: "Canvas option"

text \<open>What a page's handlers call upwards: \<open>onStartDraw()\<close> and \<open>onFinishDraw(pageIndex, path)\<close>.\<close>

datatype Callback = OnStartDraw | OnFinishDraw nat DrawingPath

text \<open>
  The state of \<open>SmartReader\<close> that the drawing handlers and \<open>captureFrame\<close>
  touch: the single annotation slot, the live flag, the visible page, the registered
  canvases and the page whose capture timer is pending.
\<close>

record ReaderState =
  activeAnnotation :: "PageAnnotation option"
  isLive :: bool
  visiblePageIndex :: nat
  canvasRefs :: "nat set"
  captureTimeout :: "nat option"

section \<open>Drawing handlers of a page\<close>

definition getPoint :: "PageState \<Rightarrow> PointerEvent \<Rightarrow> DrawingPoint" where
  "getPoint ps e =
     (case canvasRef ps of
        None \<Rightarrow> \<lparr>px = 0, py = 0\<rparr>
      | Some cv \<Rightarrow> \<lparr>px = clientX e - rectLeft e, py = clientY e - rectTop e\<rparr>)"

definition startDrawing :: "Tools \<Rightarrow> PointerEvent \<Rightarrow> PageState \<Rightarrow> PageState \<times> Callback list" where
  "startDrawing t e ps =
     (if mode t = Move then (ps, [])
      else (ps\<lparr>isDrawing := True, currentPath := [getPoint ps e]\<rparr>, [OnStartDraw]))"

definition draw :: "Tools \<Rightarrow> PointerEvent \<Rightarrow> PageState \<Rightarrow> PageState" where
  "draw t e ps =
     (if \<not> isDrawing ps \<or> mode t = Move then ps
      else ps\<lparr>currentPath := currentPath ps @ [getPoint ps e]\<rparr>)"

definition normalizePoint :: "Canvas \<Rightarrow> DrawingPoint \<Rightarrow> DrawingPoint" where
  "normalizePoint cv p = \<lparr>px = px p / real (cv_width cv), py = py p / real (cv_height cv)\<rparr>"

definition stopDrawing :: "Tools \<Rightarrow> nat \<Rightarrow> PageState \<Rightarrow> PageState \<times> Callback list" where
  "stopDrawing t i ps =
     (if \<not> isDrawing ps then (ps, [])
      else
        (ps\<lparr>isDrawing := False, currentPath := []\<rparr>,
         (case canvasRef ps of
            None \<Rightarrow> []
          | Some cv \<Rightarrow>
              if currentPath ps = [] then []
              else [OnFinishDraw i
                     \<lparr>points = map (normalizePoint cv) (currentPath ps),
                      color = (if mode t = Pen then penColor t else highlighterColor t),
                      width = (if mode t = Pen then penWidth t else highlighterWidth t)\<rparr>])))"

section \<open>The controller's annotation slot\<close>

definition captureFrame :: "ReaderState \<Rightarrow> ReaderState" where
  "captureFrame s =
     (if \<not> isLive s then s
      else if visiblePageIndex s \<notin> canvasRefs s then s
      else s\<lparr>captureTimeout := Some (visiblePageIndex s)\<rparr>)"

definition handleStartDraw :: "ReaderState \<Rightarrow> ReaderState" where
  "handleStartDraw s = s\<lparr>activeAnnotation := None\<rparr>"

definition handleFinishDraw :: "nat \<Rightarrow> DrawingPath \<Rightarrow> ReaderState \<Rightarrow> ReaderState" where
  "handleFinishDraw i p s = captureFrame (s\<lparr>activeAnnotation := Some \<lparr>pageIndex = i, path = p\<rparr>\<rparr>)"

definition clearDrawings :: "ReaderState \<Rightarrow> ReaderState" where
  "clearDrawings s = captureFrame (s\<lparr>activeAnnotation := None\<rparr>)"

text \<open>
  The \<open>annotation\<close> prop page \<open>i\<close> is rendered with:
  \<open>activeAnnotation?.pageIndex === i ? activeAnnotation.path : null\<close>.
\<close>

definition annotationProp :: "ReaderState \<Rightarrow> nat \<Rightarrow> DrawingPath option" where
  "annotationProp s i =
     (case activeAnnotation s of
        None \<Rightarrow> None
      | Some a \<Rightarrow> if pageIndex a = i then Some (path a) else None)"

text \<open>
  The reader with its pages: the controller's state, the tool settings and the local
  state of every page. A user event is delivered to one page's handler, whose callbacks
  run in the controller in the order they were made.
\<close>

record App =
  reader :: ReaderState
  tools :: Tools
  pages :: "nat \<Rightarrow> PageState"

datatype UserEvent =
    PointerDown nat PointerEvent
  | PointerMove nat PointerEvent
  | PointerUp nat
  | ClearClicked
  | SetMode Mode

fun callback :: "ReaderState \<Rightarrow> Callback \<Rightarrow> ReaderState" where
  "callback s OnStartDraw = handleStartDraw s"
| "callback s (OnFinishDraw i p) = handleFinishDraw i p s"

fun step :: "App \<Rightarrow> UserEvent \<Rightarrow> App" where
  "step a (PointerDown i e) =
     (let (ps, cbs) = startDrawing (tools a) e (pages a i)
      in a\<lparr>reader := foldl callback (reader a) cbs, pages := (pages a)(i := ps)\<rparr>)"
| "step a (PointerMove i e) = a\<lparr>pages := (pages a)(i := draw (tools a) e (pages a i))\<rparr>"
| "step a (PointerUp i) =
     (let (ps, cbs) = stopDrawing (tools a) i (pages a i)
      in a\<lparr>reader := foldl callback (reader a) cbs, pages := (pages a)(i := ps)\<rparr>)"
| "step a ClearClicked = a\<lparr>reader := clearDrawings (reader a)\<rparr>"
| "step a (SetMode m) = a\<lparr>tools := (tools a)\<lparr>mode := m\<rparr>\<rparr>"

definition run :: "App \<Rightarrow> UserEvent list \<Rightarrow> App" where
  "run a evs = foldl step a evs"

text \<open>The pages that are rendered with a stored annotation.\<close>

definition annotatedPages :: "ReaderState \<Rightarrow> nat set" where
  "annotatedPages s = {i. annotationProp s i \<noteq> None}"

section \<open>The document and its pages\<close>

text \<open>
  A text item of the rendering library (\<open>PDFTextItem\<close> in src/types.ts). Its
  \<open>transform\<close> is an array of numbers, by its declaration the matrix
  \<open>[scaleX, skewY, skewX, scaleY, translateX, translateY]\<close>; the reader tests
  whether it is there and how long it is, and reads entries 4 and 5. \<open>None\<close> is
  a missing transform, \<open>Some t\<close> an array of any length. \<open>item_width\<close> is
  \<open>item.width || 0\<close>.
\<close>

record PDFTextItem =
  str :: string
  transform :: "real list option"
  item_width :: real

text \<open>
  Reading an array entry gives \<open>undefined\<close> past the end of the array. A number
  that may be \<open>undefined\<close> or \<open>NaN\<close> is a \<^typ>\<open>real option\<close>, with
  \<open>None\<close> for both: a sum with it is \<open>NaN\<close> and a comparison with it is
  false.
\<close>

definition entry :: "real list \<Rightarrow> nat \<Rightarrow> real option" where
  "entry t i = (if i < length t then Some (t ! i) else None)"

definition jsAdd :: "real option \<Rightarrow> real \<Rightarrow> real option" where
  "jsAdd a b = (case a of None \<Rightarrow> None | Some v \<Rightarrow> Some (v + b))"

definition jsGreater :: "real option \<Rightarrow> real option \<Rightarrow> bool" where
  "jsGreater a b = (case a of None \<Rightarrow> False | Some v \<Rightarrow> (case b of None \<Rightarrow> False | Some w \<Rightarrow> v > w))"

text \<open>
  Modelled from the spec: the page handle of the external rendering library, which is
  not part of the repository. A page has its viewport at scale 1 (the natural width and
  height) and its text items; \<open>getViewport\<close> is a pure function of page and scale. A
  \<open>textContent\<close> of \<open>None\<close> is a \<open>getTextContent()\<close> promise that
  rejects.
\<close>

record PDFPageProxy =
  naturalWidth :: real
  naturalHeight :: real
  textContent :: "PDFTextItem list option"

record PDFPageViewport =
  vp_width :: real
  vp_height :: real

type_synonym PDFDocumentProxy = "PDFPageProxy list"

definition numPages :: "PDFDocumentProxy \<Rightarrow> nat" where
  "numPages doc = length doc"

text \<open>
  Modelled from the spec: \<open>getPage(n)\<close> of the rendering library takes a 1-based
  page number (spec 3); \<open>None\<close> is a rejected promise.
\<close>

definition getPage :: "PDFDocumentProxy \<Rightarrow> int \<Rightarrow> PDFPageProxy option" where
  "getPage doc n = (if 1 \<le> n \<and> n \<le> int (length doc) then Some (doc ! nat (n - 1)) else None)"

text \<open>
  Modelled from the spec: \<open>getViewport({scale})\<close> of the rendering library, a pure
  function of page and scale (spec 3) that gives the natural dimensions at scale 1
  (spec 4.3) and scales them.
\<close>

definition getViewport :: "PDFPageProxy \<Rightarrow> real \<Rightarrow> PDFPageViewport" where
  "getViewport page scale =
     \<lparr>vp_width = naturalWidth page * scale, vp_height = naturalHeight page * scale\<rparr>"

section \<open>Text extraction: \<open>getPageText\<close> and the context window\<close>

record Line =
  line_y :: real
  line_items :: "PDFTextItem list"

definition yTolerance :: real where
  "yTolerance = 6"

text \<open>
  \<open>lines.find(l => Math.abs(l.y - y) < yTolerance)\<close> followed by the push: the item
  goes to the first line that matches, or to a new line appended at the end.
\<close>

fun findAndPush :: "real \<Rightarrow> PDFTextItem \<Rightarrow> Line list \<Rightarrow> Line list" where
  "findAndPush y it [] = [\<lparr>line_y = y, line_items = [it]\<rparr>]"
| "findAndPush y it (l # ls) =
     (if \<bar>line_y l - y\<bar> < yTolerance then l\<lparr>line_items := line_items l @ [it]\<rparr> # ls
      else l # findAndPush y it ls)"

text \<open>
  The ordinate the grouping reads: \<open>transform[5]\<close>, unless the guard
  \<open>!item.transform || item.transform.length < 6\<close> rejects the item (\<open>None\<close>).
\<close>

definition item_y :: "PDFTextItem \<Rightarrow> real option" where
  "item_y it =
     (case transform it of
        None \<Rightarrow> None
      | Some t \<Rightarrow> if length t < 6 then None else Some (t ! 5))"

text \<open>
  One round of the loop \<open>for (const item of items)\<close>: an item the guard rejects
  gets a line of its own at \<open>y = 0\<close>.
\<close>

definition addItem :: "Line list \<Rightarrow> PDFTextItem \<Rightarrow> Line list" where
  "addItem ls it =
     (case item_y it of
        None \<Rightarrow> ls @ [\<lparr>line_y = 0, line_items = [it]\<rparr>]
      | Some y \<Rightarrow> findAndPush y it ls)"

definition groupLines :: "PDFTextItem list \<Rightarrow> Line list" where
  "groupLines its = foldl addItem [] its"

text \<open>
  \<open>lines.sort((a, b) => b.y - a.y)\<close>: \<open>Array.prototype.sort\<close> is stable, and so
  is \<^const>\<open>sort_key\<close>.
\<close>

definition sortLines :: "Line list \<Rightarrow> Line list" where
  "sortLines ls = sort_key (\<lambda>l. - line_y l) ls"

text \<open>
  The abscissa the sort and the join read: \<open>transform ? transform[4] : 0\<close> in the
  comparator and \<open>(item.transform || [0,0,0,0,0,0])[4]\<close> in the join. It is 0 for a
  missing transform and \<open>undefined\<close> for an array of fewer than five entries; for
  an array of five entries, which the grouping guard rejects, it is the fifth.
\<close>

definition item_x :: "PDFTextItem \<Rightarrow> real option" where
  "item_x it = (case transform it of None \<Rightarrow> Some 0 | Some t \<Rightarrow> entry t 4)"

text \<open>The abscissa as a sort key, for the items that have one.\<close>

definition xkey :: "PDFTextItem \<Rightarrow> real" where
  "xkey it = (case item_x it of None \<Rightarrow> 0 | Some v \<Rightarrow> v)"

text \<open>
  \<open>line.items.sort((a, b) => xa - xb)\<close>. \<open>Array.prototype.sort\<close> is a stable
  sort for a consistent comparator, and takes a comparator result \<open>NaN\<close> for 0.
  When every item has an abscissa this is the stable sort by it. An item whose
  abscissa is \<open>undefined\<close> compares equal to every item; the comparator is then
  consistent only if all the abscissas that are defined are equal, and the stable sort
  leaves the array as it is. Otherwise the comparator is inconsistent and the language
  leaves the order to the implementation: \<open>engineSort\<close>, a parameter.
\<close>

definition sortItems ::
    "(PDFTextItem list \<Rightarrow> PDFTextItem list) \<Rightarrow> PDFTextItem list \<Rightarrow> PDFTextItem list" where
  "sortItems engineSort its =
     (if list_all (\<lambda>it. item_x it \<noteq> None) its then sort_key xkey its
      else if list_all (\<lambda>a. list_all (\<lambda>b. item_x a = None \<or> item_x b = None \<or> item_x a = item_x b) its) its
      then its
      else engineSort its)"

text \<open>
  The word-spacing loop, with its two variables \<open>lineText\<close> and \<open>lastEnd\<close>; the
  loop starts with \<open>lastEnd = -1\<close>. After an item without an abscissa
  \<open>lastEnd\<close> is \<open>NaN\<close>, which differs from \<open>-1\<close>.
\<close>

fun joinItems :: "string \<Rightarrow> real option \<Rightarrow> PDFTextItem list \<Rightarrow> string" where
  "joinItems lineText lastEnd [] = lineText"
| "joinItems lineText lastEnd (it # its) =
     joinItems
       ((if lastEnd \<noteq> Some (- 1) \<and> jsGreater (item_x it) (jsAdd lastEnd 3)
         then lineText @ '' '' else lineText) @ str it)
       (jsAdd (item_x it) (item_width it)) its"

definition lineText :: "(PDFTextItem list \<Rightarrow> PDFTextItem list) \<Rightarrow> Line \<Rightarrow> string" where
  "lineText engineSort l = joinItems [] (Some (- 1)) (sortItems engineSort (line_items l))"

definition newline :: string where
  "newline = [CHR 0x0A]"

text \<open>\<open>Array.prototype.join\<close>.\<close>

fun join :: "string \<Rightarrow> string list \<Rightarrow> string" where
  "join sep [] = []"
| "join sep [s] = s"
| "join sep (s # t # ss) = s @ sep @ join sep (t # ss)"

text \<open>The decimal digits of a page number, as the template literal prints them.\<close>

fun showNat :: "nat \<Rightarrow> string" where
  "showNat n = (if n < 10 then [char_of (48 + n)] else showNat (n div 10) @ [char_of (48 + n mod 10)])"

declare showNat.simps [simp del]

definition pageMarker :: "int \<Rightarrow> string" where
  "pageMarker idx = ''--- [Page '' @ showNat (nat (idx + 1)) @ ''] ---''"

text \<open>The text lines of a page's items, joined with the newline character.\<close>

definition pageBody :: "(PDFTextItem list \<Rightarrow> PDFTextItem list) \<Rightarrow> PDFTextItem list \<Rightarrow> string" where
  "pageBody engineSort its = join newline (map (lineText engineSort) (sortLines (groupLines its)))"

text \<open>
  What \<open>getPageText(idx)\<close> resolves to: \<open>null\<close> or a string. The outer
  \<open>option\<close> is the promise: \<open>None\<close> when it rejects.
\<close>

datatype PageText = Null | Text string

definition getPageText ::
    "(PDFTextItem list \<Rightarrow> PDFTextItem list) \<Rightarrow> PDFDocumentProxy \<Rightarrow> int \<Rightarrow> PageText option" where
  "getPageText engineSort doc idx =
     (if idx < 0 \<or> idx \<ge> int (numPages doc) then Some Null
      else
        (case getPage doc (idx + 1) of
           None \<Rightarrow> None
         | Some page \<Rightarrow>
             (case textContent page of
                None \<Rightarrow> None
              | Some its \<Rightarrow>
                  if length its = 0 then Some (Text [])
                  else Some (Text (pageMarker idx @ newline @ pageBody engineSort its
                                   @ newline)))))"

text \<open>
  \<open>Boolean(v)\<close> on a result: \<open>null\<close> and the empty string are falsy.
  \<open>textOf\<close> is the string \<open>join\<close> prints for an element (nothing for
  \<open>null\<close>).
\<close>

fun truthy :: "PageText \<Rightarrow> bool" where
  "truthy Null = False"
| "truthy (Text s) = (s \<noteq> [])"

fun textOf :: "PageText \<Rightarrow> string" where
  "textOf Null = []"
| "textOf (Text s) = s"

text \<open>\<open>Promise.all\<close>: the results in order, or a rejection when one promise rejects.\<close>

fun promiseAll :: "'a option list \<Rightarrow> 'a list option" where
  "promiseAll [] = Some []"
| "promiseAll (None # ps) = None"
| "promiseAll (Some v # ps) = (case promiseAll ps of None \<Rightarrow> None | Some vs \<Rightarrow> Some (v # vs))"

text \<open>
  The body of the debounced extraction: the text handed to \<open>onPageText\<close>, or
  \<open>None\<close> when the \<open>catch\<close> block logs a failure and nothing is delivered.
\<close>

definition extractText ::
    "(PDFTextItem list \<Rightarrow> PDFTextItem list) \<Rightarrow> PDFDocumentProxy \<Rightarrow> nat \<Rightarrow> string option" where
  "extractText engineSort doc v =
     (case promiseAll (map (getPageText engineSort doc) [int v - 1, int v, int v + 1]) of
        None \<Rightarrow> None
      | Some results \<Rightarrow> Some (join newline (map textOf (filter truthy results))))"

section \<open>Rendering a page\<close>

text \<open>The calls the reader makes on the 2D context of a page's canvas.\<close>

datatype CanvasCmd =
    SetLineCap string
  | SetLineJoin string
  | SetStrokeStyle string
  | SetLineWidth real
  | BeginPath
  | MoveTo real real
  | LineTo real real
  | QuadraticCurveTo real real real real
  | Stroke

text \<open>
  The loop \<open>for (let i = 1; i < points.length - 1; i++)\<close> of \<open>drawSmoothPath\<close>,
  from index \<open>i\<close> on. The midpoint is taken before scaling.
\<close>

function curveLoop :: "nat \<Rightarrow> DrawingPoint list \<Rightarrow> real \<Rightarrow> real \<Rightarrow> CanvasCmd list" where
  "curveLoop i pts scaleX scaleY =
     (if i < length pts - 1
      then QuadraticCurveTo (px (pts ! i) * scaleX) (py (pts ! i) * scaleY)
             ((px (pts ! i) + px (pts ! (i + 1))) / 2 * scaleX)
             ((py (pts ! i) + py (pts ! (i + 1))) / 2 * scaleY)
           # curveLoop (i + 1) pts scaleX scaleY
      else [])"
  by pat_completeness auto
termination
  by (relation "measure (\<lambda>(i, pts, scaleX, scaleY). length pts - 1 - i)") auto

declare curveLoop.simps [simp del]

definition drawSmoothPath :: "DrawingPoint list \<Rightarrow> real \<Rightarrow> real \<Rightarrow> CanvasCmd list" where
  "drawSmoothPath pts scaleX scaleY =
     (if length pts = 0 then []
      else
        [BeginPath, MoveTo (px (pts ! 0) * scaleX) (py (pts ! 0) * scaleY)]
        @ (if length pts < 2
           then [LineTo (px (pts ! 0) * scaleX) (py (pts ! 0) * scaleY), Stroke]
           else curveLoop 1 pts scaleX scaleY
                @ [LineTo (px (pts ! (length pts - 1)) * scaleX)
                          (py (pts ! (length pts - 1)) * scaleY),
                   Stroke]))"

text \<open>
  What the render effect draws over the page once the page content is rendered: the
  stored annotation of this page, then the stroke in progress.
\<close>

definition renderOverlay ::
    "Tools \<Rightarrow> real \<Rightarrow> PDFPageViewport \<Rightarrow> DrawingPath option \<Rightarrow> DrawingPoint list \<Rightarrow> CanvasCmd list" where
  "renderOverlay t scale viewport annotation currentStroke =
     [SetLineCap ''round'', SetLineJoin ''round'']
     @ (case annotation of
          None \<Rightarrow> []
        | Some a \<Rightarrow>
            [SetStrokeStyle (color a), SetLineWidth (width a * scale)]
            @ drawSmoothPath (points a) (vp_width viewport) (vp_height viewport))
     @ (if length currentStroke > 0
        then [SetStrokeStyle (if mode t = Pen then penColor t else highlighterColor t),
              SetLineWidth ((if mode t = Pen then penWidth t else highlighterWidth t) * scale)]
             @ drawSmoothPath currentStroke 1 1
        else [])"

text \<open>
  The assignments \<open>canvas.width = viewport.width\<close> and
  \<open>canvas.height = viewport.height\<close> store a number in an attribute that the HTML
  canvas declares as an unsigned integer: the browser cuts off the fraction of a
  non-negative number (the page sizes in question are far below the \<open>2^31\<close> at
  which the conversion wraps). The source applies no rounding of its own.
\<close>

definition canvasDim :: "real \<Rightarrow> nat" where
  "canvasDim v = nat \<lfloor>v\<rfloor>"

text \<open>
  "Resize canvas if needed": the test
  \<open>canvas.width !== viewport.width || canvas.height !== viewport.height\<close> and the
  two assignments it guards.
\<close>

definition needsResize :: "Canvas \<Rightarrow> PDFPageViewport \<Rightarrow> bool" where
  "needsResize cv viewport =
     (real (cv_width cv) \<noteq> vp_width viewport \<or> real (cv_height cv) \<noteq> vp_height viewport)"

definition resizeCanvas :: "Canvas \<Rightarrow> PDFPageViewport \<Rightarrow> Canvas" where
  "resizeCanvas cv viewport =
     (if needsResize cv viewport
      then cv\<lparr>cv_width := canvasDim (vp_width viewport), cv_height := canvasDim (vp_height viewport)\<rparr>
      else cv)"

subsection \<open>The render effect and its cancellation\<close>

text \<open>
  Every run of the render effect that gets past its first guard starts one asynchronous
  \<open>render()\<close>, here a task. A task waits for \<open>getPage\<close>, then for the library's
  render task, then is finished. \<open>isCancelled\<close> is the flag of the run's closure;
  \<open>renderTask\<close> tells whether the closure's variable of that name holds a render
  task (it is \<open>null\<close> until \<open>page.render\<close> is called);
  \<open>renderCancelled\<close> records that the cleanup called \<open>renderTask.cancel()\<close>.
  The props are the values the run closes over.
\<close>

datatype Phase = AwaitPage | Rendering | Finished

record RenderProps =
  r_scale :: real
  r_annotation :: "DrawingPath option"
  r_currentPath :: "DrawingPoint list"
  r_tools :: Tools

record Task =
  phase :: Phase
  isCancelled :: bool
  renderTask :: bool
  renderCancelled :: bool
  props :: RenderProps

text \<open>
  What is written to the raster, by which task, and when a task begins: the log lists
  these in the order they happen.
\<close>

datatype Write = Resized nat nat | Pixels | Overlay "CanvasCmd list"

datatype LogEntry = Begin nat | Wrote nat Write

record Surface =
  sf_page :: PDFPageProxy
  sf_canvas :: "Canvas option"
  tasks :: "Task list"
  current :: "nat option"
  sf_log :: "LogEntry list"

text \<open>
  The steps of the event loop that concern one page's raster: React re-runs the effect
  because a dependency changed (with the new visibility and props); the continuation of
  task \<open>k\<close> after \<open>await pdfDoc.getPage\<close> runs (the promise fulfilled or rejected);
  the library paints a part of the page for the render task of \<open>k\<close>; the continuation
  of task \<open>k\<close> after \<open>await renderTask.promise\<close> runs (fulfilled or rejected).
\<close>

datatype RenderEvent =
    DepsChanged bool RenderProps
  | PageSettled nat bool
  | LibraryPaints nat
  | RenderSettled nat bool

text \<open>The cleanup of the last effect run: \<open>isCancelled = true; if (renderTask) renderTask.cancel()\<close>.\<close>

definition cleanup :: "Surface \<Rightarrow> Surface" where
  "cleanup s =
     (case current s of
        None \<Rightarrow> s
      | Some k \<Rightarrow>
          s\<lparr>tasks := (tasks s)[k := (tasks s ! k)
                 \<lparr>isCancelled := True,
                  renderCancelled := (if renderTask (tasks s ! k) then True
                                      else renderCancelled (tasks s ! k))\<rparr>],
            current := None\<rparr>)"

text \<open>The effect body: nothing when the page is not visible or has no canvas, else a new task.\<close>

definition effect :: "bool \<Rightarrow> RenderProps \<Rightarrow> Surface \<Rightarrow> Surface" where
  "effect isVisible p s =
     (if \<not> isVisible \<or> sf_canvas s = None then s
      else s\<lparr>tasks := tasks s @ [\<lparr>phase = AwaitPage, isCancelled = False, renderTask = False,
                                    renderCancelled = False, props = p\<rparr>],
             current := Some (length (tasks s)),
             sf_log := sf_log s @ [Begin (length (tasks s))]\<rparr>)"

definition setPhase :: "nat \<Rightarrow> Phase \<Rightarrow> Surface \<Rightarrow> Surface" where
  "setPhase k ph s = s\<lparr>tasks := (tasks s)[k := (tasks s ! k)\<lparr>phase := ph\<rparr>]\<rparr>"

text \<open>\<open>renderTask = page.render(...)\<close>: the task now waits for its render task.\<close>

definition startRender :: "nat \<Rightarrow> Surface \<Rightarrow> Surface" where
  "startRender k s =
     s\<lparr>tasks := (tasks s)[k := (tasks s ! k)\<lparr>phase := Rendering, renderTask := True\<rparr>]\<rparr>"

text \<open>
  After \<open>await pdfDoc.getPage\<close>: a rejection goes to the \<open>catch\<close>; a cancelled
  task returns; otherwise the canvas is resized to the viewport and the library's render
  task starts.
\<close>

definition afterGetPage :: "nat \<Rightarrow> bool \<Rightarrow> Surface \<Rightarrow> Surface" where
  "afterGetPage k fulfilled s =
     (if \<not> fulfilled then setPhase k Finished s
      else if isCancelled (tasks s ! k) then setPhase k Finished s
      else
        (case sf_canvas s of
           None \<Rightarrow> setPhase k Finished s
         | Some cv \<Rightarrow>
             (let viewport = getViewport (sf_page s) (r_scale (props (tasks s ! k)));
                  cv' = resizeCanvas cv viewport
              in startRender k
                   (s\<lparr>sf_canvas := Some cv',
                      sf_log := sf_log s @ (if needsResize cv viewport
                                            then [Wrote k (Resized (cv_width cv') (cv_height cv'))]
                                            else [])\<rparr>))))"

text \<open>
  After \<open>await renderTask.promise\<close>: a rejection (the library's
  \<open>RenderingCancelledException\<close> among them) goes to the \<open>catch\<close>; a cancelled
  task returns; otherwise the overlay is drawn.
\<close>

definition afterRender :: "nat \<Rightarrow> bool \<Rightarrow> Surface \<Rightarrow> Surface" where
  "afterRender k fulfilled s =
     (if \<not> fulfilled then setPhase k Finished s
      else if isCancelled (tasks s ! k) then setPhase k Finished s
      else
        (let p = props (tasks s ! k);
             viewport = getViewport (sf_page s) (r_scale p)
         in setPhase k Finished
              (s\<lparr>sf_log := sf_log s @ [Wrote k (Overlay (renderOverlay (r_tools p) (r_scale p) viewport
                                         (r_annotation p) (r_currentPath p)))]\<rparr>)))"

text \<open>
  Modelled from the spec: the rendering library's \<open>render\<close> is a cancellable task
  (spec 4.1 and 6); the library is not part of the repository. A render task paints while
  it runs and paints nothing once \<open>cancel()\<close> has been called on it.
\<close>

definition libraryPaints :: "nat \<Rightarrow> Surface \<Rightarrow> Surface" where
  "libraryPaints k s =
     (if renderCancelled (tasks s ! k) then s else s\<lparr>sf_log := sf_log s @ [Wrote k Pixels]\<rparr>)"

fun renderStep :: "Surface \<Rightarrow> RenderEvent \<Rightarrow> Surface" where
  "renderStep s (DepsChanged isVisible p) = effect isVisible p (cleanup s)"
| "renderStep s (PageSettled k fulfilled) =
     (if k < length (tasks s) \<and> phase (tasks s ! k) = AwaitPage then afterGetPage k fulfilled s else s)"
| "renderStep s (LibraryPaints k) =
     (if k < length (tasks s) \<and> phase (tasks s ! k) = Rendering then libraryPaints k s else s)"
| "renderStep s (RenderSettled k fulfilled) =
     (if k < length (tasks s) \<and> phase (tasks s ! k) = Rendering then afterRender k fulfilled s else s)"

definition renderRun :: "Surface \<Rightarrow> RenderEvent list \<Rightarrow> Surface" where
  "renderRun s evs = foldl renderStep s evs"

text \<open>A freshly mounted page: no effect has run, nothing was written.\<close>

definition mounted :: "PDFPageProxy \<Rightarrow> Canvas option \<Rightarrow> Surface" where
  "mounted page cv = \<lparr>sf_page = page, sf_canvas = cv, tasks = [], current = None, sf_log = []\<rparr>"

text \<open>
  A log is fresh when every write comes from the task that began last before it:
  \<open>latest\<close> is the task that began last, \<open>fresh\<close> checks the writes in order.
\<close>

fun latest :: "nat option \<Rightarrow> LogEntry list \<Rightarrow> nat option" where
  "latest cur [] = cur"
| "latest cur (Begin n # es) = latest (Some n) es"
| "latest cur (Wrote k w # es) = latest cur es"

fun fresh :: "nat option \<Rightarrow> LogEntry list \<Rightarrow> bool" where
  "fresh cur [] = True"
| "fresh cur (Begin n # es) = fresh (Some n) es"
| "fresh cur (Wrote k w # es) = (cur = Some k \<and> fresh cur es)"

section \<open>Fit to width, fit to page\<close>

datatype FitType = FitWidth | FitPage

text \<open>The scroll container's visible size, as \<open>clientWidth\<close> and \<open>clientHeight\<close> give it.\<close>

record Container =
  clientWidth :: int
  clientHeight :: int

text \<open>
  \<open>handleFit(type)\<close>: the scale it sets, or the scale as it was when it returns early
  or the page fetch fails. Pages have positive natural dimensions; for a dimension of 0
  JavaScript's quotient is not a real number.
\<close>

definition handleFit ::
    "FitType \<Rightarrow> PDFDocumentProxy option \<Rightarrow> Container option \<Rightarrow> int \<Rightarrow> real \<Rightarrow> real" where
  "handleFit type pdfDoc scrollContainer visiblePage scale =
     (case pdfDoc of
        None \<Rightarrow> scale
      | Some doc \<Rightarrow>
          (case scrollContainer of
             None \<Rightarrow> scale
           | Some container \<Rightarrow>
               (let pageIndexToUse = (if visiblePage \<ge> 0 then visiblePage else 0)
                in case getPage doc (pageIndexToUse + 1) of
                     None \<Rightarrow> scale
                   | Some page \<Rightarrow>
                       (let viewport = getViewport page 1;
                            padding = 32;
                            availableWidth = real_of_int (clientWidth container - padding);
                            availableHeight = real_of_int (clientHeight container - padding);
                            newScale = (if type = FitWidth then availableWidth / vp_width viewport
                                        else availableHeight / vp_height viewport)
                        in min (max newScale 0.4) 4.0))))"

text \<open>
  The state of \<open>SmartReader\<close> that loading a file and fitting touch. A handler
  belongs to the render that created it and reads the state of that render: a toolbar
  button carries the handler of the current render, an effect the handlers of the
  render in which it ran. \<open>scrollContainerRef\<close> is a ref, read when the handler
  runs.
\<close>

record ViewState =
  v_pdfDoc :: "PDFDocumentProxy option"
  v_numPages :: nat
  v_loading :: bool
  v_scale :: real
  v_visiblePageIndex :: int

text \<open>The state of the first render: the initial values of the \<open>useState\<close> calls.\<close>

definition initialView :: ViewState where
  "initialView = \<lparr>v_pdfDoc = None, v_numPages = 0, v_loading = True, v_scale = 1.2,
                   v_visiblePageIndex = 0\<rparr>"

text \<open>A click on "Fit Width" or "Fit Page": the handler of the current render.\<close>

definition clickFit :: "FitType \<Rightarrow> Container option \<Rightarrow> ViewState \<Rightarrow> ViewState" where
  "clickFit type scrollContainer s =
     s\<lparr>v_scale := handleFit type (v_pdfDoc s) scrollContainer (v_visiblePageIndex s) (v_scale s)\<rparr>"

text \<open>
  The effect that loads the file, run in a render with state \<open>s\<close>, up to and
  including its "Initial fit for mobile": the document that \<open>getDocument\<close> gives
  (\<open>None\<close> when loading fails) is stored, and in a window narrower than 768 the
  timeout calls \<open>handleFit('width')\<close>. That \<open>handleFit\<close> is the one the effect
  closes over: it reads the \<open>pdfDoc\<close> and \<open>visiblePageIndex\<close> of \<open>s\<close>, the
  render in which the effect ran, not the document just stored.
\<close>

definition loadPdf ::
    "real \<Rightarrow> Container option \<Rightarrow> PDFDocumentProxy option \<Rightarrow> ViewState \<Rightarrow> ViewState" where
  "loadPdf innerWidth scrollContainer loaded s =
     (case loaded of
        None \<Rightarrow> s\<lparr>v_loading := False\<rparr>
      | Some doc \<Rightarrow>
          (let s' = s\<lparr>v_pdfDoc := Some doc, v_numPages := numPages doc, v_loading := False\<rparr>
           in if innerWidth < 768
              then s'\<lparr>v_scale := handleFit FitWidth (v_pdfDoc s) scrollContainer
                                  (v_visiblePageIndex s) (v_scale s')\<rparr>
              else s'))"

section \<open>The noise gate of the audio stream (src/unnamed/part\_000, \<open>LiveService\<close>)\<close>

definition noiseThreshold :: real where
  "noiseThreshold = 0.0025"

text \<open>The loop that finds the largest absolute sample, from its running maximum.\<close>

fun maxAmplitudeLoop :: "real \<Rightarrow> real list \<Rightarrow> real" where
  "maxAmplitudeLoop maxAmplitude [] = maxAmplitude"
| "maxAmplitudeLoop maxAmplitude (x # xs) =
     maxAmplitudeLoop (if \<bar>x\<bar> > maxAmplitude then \<bar>x\<bar> else maxAmplitude) xs"

text \<open>
  \<open>sessionPromise\<close>: \<open>null\<close>, or a promise that fulfils with the session, or one
  that rejects. A message sent to the session is a \<open>sendRealtimeInput\<close> with a mime
  type and data.
\<close>

datatype SessionPromise = NoSession | SessionOpen | SessionFailed

datatype RealtimeInput = Media string string

text \<open>
  The \<open>onaudioprocess\<close> handler: the messages it sends for one captured buffer. The
  encoder \<open>pcmFloat32ToBase64\<close> is a parameter.
\<close>

definition onaudioprocess ::
    "(real list \<Rightarrow> string) \<Rightarrow> SessionPromise \<Rightarrow> real list \<Rightarrow> RealtimeInput list" where
  "onaudioprocess pcmFloat32ToBase64 sessionPromise inputData =
     (let maxAmplitude = maxAmplitudeLoop 0 inputData
      in if maxAmplitude > noiseThreshold
         then (case sessionPromise of
                 SessionOpen \<Rightarrow> [Media ''audio/pcm;rate=16000'' (pcmFloat32ToBase64 inputData)]
               | _ \<Rightarrow> [])
         else [])"

section \<open>Notions the properties are stated with\<close>

text \<open>
  An item sits near a line when its ordinate is within the tolerance of the line's
  \<open>y\<close>, the ordinate of the item that opened the line; an item that the guard
  rejects sits in a line with \<open>y = 0\<close>.
\<close>

definition near :: "Line \<Rightarrow> PDFTextItem \<Rightarrow> bool" where
  "near l it =
     (case item_y it of
        None \<Rightarrow> line_y l = 0
      | Some y \<Rightarrow> \<bar>line_y l - y\<bar> < yTolerance)"

definition anchored :: "Line list \<Rightarrow> bool" where
  "anchored ls = (\<forall>l \<in> set ls. \<forall>it \<in> set (line_items l). near l it)"

text \<open>
  The text of a line without the accumulator: every item is preceded by a space exactly
  when the loop has seen an item before (\<open>lastEnd\<close> differs from its initial
  \<open>-1\<close>) and the item starts more than 3 units right of \<open>lastEnd\<close>.
\<close>

fun spaced :: "real option \<Rightarrow> PDFTextItem list \<Rightarrow> string" where
  "spaced lastEnd [] = []"
| "spaced lastEnd (it # its) =
     (if lastEnd \<noteq> Some (- 1) \<and> jsGreater (item_x it) (jsAdd lastEnd 3) then '' '' else [])
     @ str it @ spaced (jsAdd (item_x it) (item_width it)) its"

text \<open>
  The items of page \<open>idx\<close> (none when the fetch fails), whether the page is inside
  the document and has text, and whether its fetch fails.
\<close>

definition pageItems :: "PDFDocumentProxy \<Rightarrow> int \<Rightarrow> PDFTextItem list" where
  "pageItems doc idx = (case textContent (doc ! nat idx) of None \<Rightarrow> [] | Some its \<Rightarrow> its)"

definition hasText :: "PDFDocumentProxy \<Rightarrow> int \<Rightarrow> bool" where
  "hasText doc idx = (0 \<le> idx \<and> idx < int (numPages doc) \<and> pageItems doc idx \<noteq> [])"

definition fetchFails :: "PDFDocumentProxy \<Rightarrow> int \<Rightarrow> bool" where
  "fetchFails doc idx = (0 \<le> idx \<and> idx < int (numPages doc) \<and> textContent (doc ! nat idx) = None)"

definition pageBlock ::
    "(PDFTextItem list \<Rightarrow> PDFTextItem list) \<Rightarrow> PDFDocumentProxy \<Rightarrow> int \<Rightarrow> string" where
  "pageBlock engineSort doc idx =
     pageMarker idx @ newline @ pageBody engineSort (pageItems doc idx) @ newline"

text \<open>Reading a decimal numeral back.\<close>

definition readNat :: "string \<Rightarrow> nat" where
  "readNat s = foldl (\<lambda>a c. 10 * a + (of_char c - 48)) 0 s"

text \<open>The tasks that began, in the order of the log.\<close>

fun begun :: "LogEntry list \<Rightarrow> nat list" where
  "begun [] = []"
| "begun (Begin n # es) = n # begun es"
| "begun (Wrote k w # es) = begun es"

text \<open>
  The invariant of a page's surface: a task that waits for its render task holds it;
  every task but the current one is cancelled, and its render task, if it still runs,
  is cancelled as well; the current task is the one that began last; the log is fresh;
  the tasks began one after the other.
\<close>

definition renderInv :: "Surface \<Rightarrow> bool" where
  "renderInv s =
     ((\<forall>k < length (tasks s). phase (tasks s ! k) = Rendering \<longrightarrow> renderTask (tasks s ! k))
      \<and> (\<forall>k < length (tasks s). current s \<noteq> Some k \<longrightarrow>
         isCancelled (tasks s ! k) \<and> (phase (tasks s ! k) = Rendering \<longrightarrow> renderCancelled (tasks s ! k)))
      \<and> (\<forall>k. current s = Some k \<longrightarrow> k < length (tasks s) \<and> latest None (sf_log s) = Some k)
      \<and> fresh None (sf_log s)
      \<and> begun (sf_log s) = [0..<length (tasks s)])"

section \<open>Example inputs\<close>

text \<open>
  A page with a 600 by 800 raster, the reader's default tool settings, a pointer event
  on a canvas whose bounding rectangle starts at (100, 50), and a reader that holds an
  annotation on page 2.
\<close>

definition exPage :: PageState where
  "exPage = \<lparr>isDrawing = False, currentPath = [],
              canvasRef = Some \<lparr>cv_width = 600, cv_height = 800\<rparr>\<rparr>"

definition exTools :: Tools where
  "exTools = \<lparr>mode = Pen, penColor = ''#ef4444'', penWidth = 4,
               highlighterColor = ''rgba(255, 226, 8, 0.5)'', highlighterWidth = 20\<rparr>"

definition exStroke :: DrawingPath where
  "exStroke = \<lparr>points = [\<lparr>px = 1 / 2, py = 1 / 2\<rparr>], color = ''#ef4444'', width = 4\<rparr>"

definition exApp :: App where
  "exApp = \<lparr>reader = \<lparr>activeAnnotation = Some \<lparr>pageIndex = 2, path = exStroke\<rparr>,
                       isLive = False, visiblePageIndex = 2, canvasRefs = {},
                       captureTimeout = None\<rparr>,
             tools = exTools, pages = (\<lambda>_. exPage)\<rparr>"

definition exEvent :: "real \<Rightarrow> real \<Rightarrow> PointerEvent" where
  "exEvent cx cy = \<lparr>clientX = cx, clientY = cy, rectLeft = 100, rectTop = 50\<rparr>"

text \<open>A text item with the given string, position and width.\<close>

definition exItem :: "string \<Rightarrow> real \<Rightarrow> real \<Rightarrow> real \<Rightarrow> PDFTextItem" where
  "exItem s x y w = \<lparr>str = s, transform = Some [1, 0, 0, 1, x, y], item_width = w\<rparr>"

definition exTextPage :: "PDFTextItem list \<Rightarrow> PDFPageProxy" where
  "exTextPage its = \<lparr>naturalWidth = 612, naturalHeight = 792, textContent = Some its\<rparr>"

text \<open>A document of three pages: two lines of text, no text at all, one item.\<close>

definition exDoc :: PDFDocumentProxy where
  "exDoc = [exTextPage [exItem ''World'' 54 100 30, exItem ''Hello'' 10 100 40,
                        exItem ''Top'' 10 700 5],
            exTextPage [],
            exTextPage [exItem ''x'' 1 1 1]]"

text \<open>A page of 612 by 792 units (US Letter) and a canvas of the default size 300 by 150.\<close>

definition exLetter :: PDFPageProxy where
  "exLetter = \<lparr>naturalWidth = 612, naturalHeight = 792, textContent = Some []\<rparr>"

definition exCanvas :: Canvas where
  "exCanvas = \<lparr>cv_width = 300, cv_height = 150\<rparr>"

text \<open>The props of a render at the given scale, with no annotation and no stroke.\<close>

definition exProps :: "real \<Rightarrow> RenderProps" where
  "exProps s = \<lparr>r_scale = s, r_annotation = None, r_currentPath = [], r_tools = exTools\<rparr>"

text \<open>
  A render at scale 1 that is superseded by a render at scale 2 while the library
  paints: the first task's later paint and its overlay do not reach the raster.
\<close>

definition exRenderEvents :: "RenderEvent list" where
  "exRenderEvents =
     [DepsChanged True (exProps 1), PageSettled 0 True, LibraryPaints 0,
      DepsChanged True (exProps 2), LibraryPaints 0, RenderSettled 0 True,
      PageSettled 1 True, LibraryPaints 1, RenderSettled 1 True]"

section \<open>Single annotation slot\<close>

lemma activeAnnotation_captureFrame:
  "activeAnnotation (captureFrame s) = activeAnnotation s"
  by (simp add: captureFrame_def)

lemma annotatedPages_None:
  "activeAnnotation s = None \<Longrightarrow> annotatedPages s = {}"
  by (simp add: annotatedPages_def annotationProp_def)

lemma annotatedPages_Some:
  "activeAnnotation s = Some a \<Longrightarrow> annotatedPages s = {pageIndex a}"
  by (auto simp: annotatedPages_def annotationProp_def)

lemma card_annotatedPages: "card (annotatedPages s) \<le> 1"
  by (cases "activeAnnotation s") (simp_all add: annotatedPages_None annotatedPages_Some)

lemma activeAnnotation_startDrawing:
  "mode (tools a) \<noteq> Move \<Longrightarrow> activeAnnotation (reader (step a (PointerDown i e))) = None"
  by (simp add: startDrawing_def handleStartDraw_def)

lemma run_snoc: "run a (evs @ [ev]) = step (run a evs) ev"
  by (simp add: run_def)

lemma run_Cons: "run a (ev # evs) = run (step a ev) evs"
  by (simp add: run_def)

text \<open>Pointer moves on one page leave the controller and the tools alone and only extend
  that page's path.\<close>

lemma run_moves:
  "reader (run a (map (PointerMove B) ms)) = reader a
   \<and> tools (run a (map (PointerMove B) ms)) = tools a
   \<and> canvasRef (pages (run a (map (PointerMove B) ms)) B) = canvasRef (pages a B)
   \<and> isDrawing (pages (run a (map (PointerMove B) ms)) B) = isDrawing (pages a B)
   \<and> (currentPath (pages a B) \<noteq> [] \<longrightarrow> currentPath (pages (run a (map (PointerMove B) ms)) B) \<noteq> [])"
proof (induction ms arbitrary: a)
  case Nil
  show ?case by (simp add: run_def)
next
  case (Cons m ms)
  show ?case
    using Cons.IH [of "step a (PointerMove B m)"]
    by (simp add: run_Cons draw_def)
qed

lemma stroke_replaces:
  assumes m: "mode (tools a) \<noteq> Move" and cv: "canvasRef (pages a B) = Some cv"
  shows "\<exists>p. activeAnnotation
           (reader (run a (PointerDown B e # map (PointerMove B) ms @ [PointerUp B])))
         = Some \<lparr>pageIndex = B, path = p\<rparr>"
proof -
  let ?a1 = "step a (PointerDown B e)"
  let ?a2 = "run ?a1 (map (PointerMove B) ms)"
  have a1: "mode (tools ?a1) \<noteq> Move" "canvasRef (pages ?a1 B) = Some cv"
    "isDrawing (pages ?a1 B)" "currentPath (pages ?a1 B) \<noteq> []"
    using m cv by (simp_all add: startDrawing_def)
  have a2: "mode (tools ?a2) \<noteq> Move" "canvasRef (pages ?a2 B) = Some cv"
    "isDrawing (pages ?a2 B)" "currentPath (pages ?a2 B) \<noteq> []"
    using a1 run_moves [of ?a1 B ms] by simp_all
  have "\<exists>p. activeAnnotation (reader (step ?a2 (PointerUp B))) = Some \<lparr>pageIndex = B, path = p\<rparr>"
    using a2 by (simp add: stopDrawing_def handleFinishDraw_def activeAnnotation_captureFrame)
  then show ?thesis
    by (simp add: run_Cons run_snoc del: step.simps)
qed

text \<open>Raw points inside the raster are normalized into the unit square.\<close>

lemma normalizePoint_unit:
  assumes "0 < cv_width cv" "0 < cv_height cv"
    and "0 \<le> px p" "px p \<le> real (cv_width cv)" "0 \<le> py p" "py p \<le> real (cv_height cv)"
  shows "0 \<le> px (normalizePoint cv p) \<and> px (normalizePoint cv p) \<le> 1
       \<and> 0 \<le> py (normalizePoint cv p) \<and> py (normalizePoint cv p) \<le> 1"
  using assms by (simp add: normalizePoint_def)

section \<open>Line grouping\<close>

lemma near_line_items_update: "near (l\<lparr>line_items := xs\<rparr>) it = near l it"
  by (simp add: near_def split: option.splits)

lemma anchored_findAndPush:
  "anchored ls \<Longrightarrow> item_y it = Some y \<Longrightarrow> anchored (findAndPush y it ls)"
proof (induction ls)
  case Nil
  then show ?case by (simp add: anchored_def near_def yTolerance_def)
next
  case (Cons l ls)
  have tl: "anchored ls"
    using Cons.prems(1) by (simp add: anchored_def)
  show ?case
  proof (cases "\<bar>line_y l - y\<bar> < yTolerance")
    case True
    then have "near l it"
      using Cons.prems(2) by (simp add: near_def)
    then show ?thesis
      using True Cons.prems(1) by (auto simp: anchored_def near_line_items_update)
  next
    case False
    then show ?thesis
      using Cons.IH [OF tl Cons.prems(2)] Cons.prems(1) by (simp add: anchored_def)
  qed
qed

lemma anchored_addItem: "anchored ls \<Longrightarrow> anchored (addItem ls it)"
proof (cases "item_y it")
  case None
  assume "anchored ls"
  then show ?thesis
    using None by (auto simp: addItem_def anchored_def near_def)
next
  case (Some y)
  assume "anchored ls"
  then show ?thesis
    using Some anchored_findAndPush [of ls it y] by (simp add: addItem_def)
qed

lemma anchored_foldl: "anchored ls \<Longrightarrow> anchored (foldl addItem ls its)"
  by (induction its arbitrary: ls) (simp_all add: anchored_addItem)

lemma anchored_groupLines: "anchored (groupLines its)"
  unfolding groupLines_def by (rule anchored_foldl) (simp add: anchored_def)

text \<open>Grouping neither loses nor duplicates an item.\<close>

lemma mset_findAndPush:
  "mset (concat (map line_items (findAndPush y it ls)))
   = mset (concat (map line_items ls)) + {#it#}"
  by (induction ls) simp_all

lemma mset_addItem:
  "mset (concat (map line_items (addItem ls it))) = mset (concat (map line_items ls)) + {#it#}"
  by (cases "item_y it") (simp_all add: addItem_def mset_findAndPush)

lemma mset_foldl_addItem:
  "mset (concat (map line_items (foldl addItem ls its)))
   = mset (concat (map line_items ls)) + mset its"
  by (induction its arbitrary: ls) (simp_all add: mset_addItem)

lemma mset_groupLines: "mset (concat (map line_items (groupLines its))) = mset its"
  by (simp add: groupLines_def mset_foldl_addItem)

lemma groupLines_pair:
  assumes "item_y a = Some ya" "item_y b = Some yb"
  shows "groupLines [a, b] =
    (if \<bar>ya - yb\<bar> < 6 then [\<lparr>line_y = ya, line_items = [a, b]\<rparr>]
     else [\<lparr>line_y = ya, line_items = [a]\<rparr>, \<lparr>line_y = yb, line_items = [b]\<rparr>])"
  using assms by (simp add: groupLines_def addItem_def yTolerance_def)

text \<open>
  The rule of the loop, one item at a time: the items are taken in their order; an item
  joins the first line that is near enough and opens a line at the end otherwise.
\<close>

lemma groupLines_snoc: "groupLines (its @ [it]) = addItem (groupLines its) it"
  by (simp add: groupLines_def)

lemma findAndPush_new:
  "\<forall>l \<in> set ls. \<not> \<bar>line_y l - y\<bar> < yTolerance \<Longrightarrow>
   findAndPush y it ls = ls @ [\<lparr>line_y = y, line_items = [it]\<rparr>]"
  by (induction ls) simp_all

lemma findAndPush_first:
  assumes "i < length ls" "\<bar>line_y (ls ! i) - y\<bar> < yTolerance"
    and "\<forall>j < i. \<not> \<bar>line_y (ls ! j) - y\<bar> < yTolerance"
  shows "findAndPush y it ls = ls[i := (ls ! i)\<lparr>line_items := line_items (ls ! i) @ [it]\<rparr>]"
  using assms
proof (induction ls arbitrary: i)
  case Nil
  then show ?case by simp
next
  case (Cons l ls)
  show ?case
  proof (cases i)
    case 0
    then show ?thesis
      using Cons.prems by simp
  next
    case (Suc i')
    have head: "\<not> \<bar>line_y l - y\<bar> < yTolerance"
      using Cons.prems(3) Suc by auto
    have "findAndPush y it ls = ls[i' := (ls ! i')\<lparr>line_items := line_items (ls ! i') @ [it]\<rparr>]"
    proof (rule Cons.IH)
      show "i' < length ls"
        using Cons.prems(1) Suc by simp
      show "\<bar>line_y (ls ! i') - y\<bar> < yTolerance"
        using Cons.prems(2) Suc by simp
      show "\<forall>j < i'. \<not> \<bar>line_y (ls ! j) - y\<bar> < yTolerance"
      proof (intro allI impI)
        fix j
        assume "j < i'"
        then have "Suc j < i"
          using Suc by simp
        then have "\<not> \<bar>line_y ((l # ls) ! Suc j) - y\<bar> < yTolerance"
          using Cons.prems(3) by blast
        then show "\<not> \<bar>line_y (ls ! j) - y\<bar> < yTolerance"
          by simp
      qed
    qed
    then show ?thesis
      using head Suc by simp
  qed
qed

text \<open>Sorting the lines keeps them and puts them in descending order of \<open>y\<close>.\<close>

lemma sortLines_descending: "sorted_wrt (\<lambda>a b. line_y a \<ge> line_y b) (sortLines ls)"
proof -
  have "sorted (map (\<lambda>l. - line_y l) (sortLines ls))"
    unfolding sortLines_def by (rule sorted_sort_key)
  then show ?thesis
    by (simp add: sorted_wrt_map)
qed

lemma mset_sortLines: "mset (sortLines ls) = mset ls"
  by (simp add: sortLines_def)

lemma set_sortLines: "set (sortLines ls) = set ls"
  by (simp add: sortLines_def)

lemma sortLines_stable:
  "filter (\<lambda>l. line_y l = y) (sortLines ls) = filter (\<lambda>l. line_y l = y) ls"
  using sort_key_stable [of "\<lambda>l. - line_y l" "- y" ls] by (simp add: sortLines_def)

lemma anchored_sortLines: "anchored (sortLines ls) = anchored ls"
  by (simp add: anchored_def set_sortLines)

text \<open>
  Sorting the items of a line, when each has an abscissa: ascending, stable, and with
  the same items.
\<close>

lemma sortItems_keyed:
  "\<forall>it \<in> set its. item_x it \<noteq> None \<Longrightarrow> sortItems engineSort its = sort_key xkey its"
  by (simp add: sortItems_def list_all_iff)

lemma sortItems_ascending:
  "\<forall>it \<in> set its. item_x it \<noteq> None \<Longrightarrow> sorted (map xkey (sortItems engineSort its))"
  by (simp add: sortItems_keyed)

lemma mset_sortItems:
  "\<forall>it \<in> set its. item_x it \<noteq> None \<Longrightarrow> mset (sortItems engineSort its) = mset its"
  by (simp add: sortItems_keyed)

lemma sortItems_stable:
  "\<forall>it \<in> set its. item_x it \<noteq> None \<Longrightarrow>
   filter (\<lambda>it. xkey it = x) (sortItems engineSort its) = filter (\<lambda>it. xkey it = x) its"
  by (simp add: sortItems_keyed sort_key_stable)

section \<open>Word spacing\<close>

lemma joinItems_spaced: "joinItems acc lastEnd its = acc @ spaced lastEnd its"
  by (induction its arbitrary: acc lastEnd) simp_all

lemma sortItems_pair:
  "item_x a = Some xa \<Longrightarrow> item_x b = Some xb \<Longrightarrow> xa \<le> xb \<Longrightarrow> sortItems engineSort [a, b] = [a, b]"
  by (simp add: sortItems_def xkey_def)

lemma lineText_pair:
  assumes "item_x a = Some xa" "item_x b = Some xb" "xa \<le> xb"
  shows "lineText engineSort \<lparr>line_y = y, line_items = [a, b]\<rparr> =
     str a @ (if xa + item_width a \<noteq> - 1 \<and> xb - (xa + item_width a) > 3
              then '' '' else []) @ str b"
  using assms
  by (simp add: lineText_def sortItems_pair [OF assms] joinItems_spaced jsAdd_def jsGreater_def
      less_diff_eq add.commute)

section \<open>The context window\<close>

lemma getPageText_outside:
  "idx < 0 \<or> int (numPages doc) \<le> idx \<Longrightarrow> getPageText engineSort doc idx = Some Null"
  by (simp add: getPageText_def)

lemma getPageText_inside:
  assumes "0 \<le> idx" "idx < int (numPages doc)"
  shows "getPageText engineSort doc idx =
     (case textContent (doc ! nat idx) of
        None \<Rightarrow> None
      | Some its \<Rightarrow> Some (Text (if its = [] then []
                                else pageMarker idx @ newline @ pageBody engineSort its @ newline)))"
proof -
  have "getPage doc (idx + 1) = Some (doc ! nat idx)"
    using assms by (simp add: getPage_def numPages_def)
  then show ?thesis
    using assms by (simp add: getPageText_def split: option.splits)
qed

lemma getPageText_cases:
  "getPageText engineSort doc idx =
     (if fetchFails doc idx then None
      else if hasText doc idx then Some (Text (pageBlock engineSort doc idx))
      else if 0 \<le> idx \<and> idx < int (numPages doc) then Some (Text [])
      else Some Null)"
proof (cases "0 \<le> idx \<and> idx < int (numPages doc)")
  case True
  then show ?thesis
    using getPageText_inside [of idx doc engineSort]
    by (simp add: fetchFails_def hasText_def pageItems_def pageBlock_def split: option.splits)
next
  case False
  then show ?thesis
    using getPageText_outside [of idx doc engineSort]
    by (auto simp: fetchFails_def hasText_def)
qed

lemma pageBlock_not_empty: "pageBlock engineSort doc idx \<noteq> []"
  by (simp add: pageBlock_def pageMarker_def)

lemma promiseAll_getPageText:
  "promiseAll (map (getPageText engineSort doc) idxs) =
     (if \<exists>i \<in> set idxs. fetchFails doc i then None
      else Some (map (\<lambda>i. if hasText doc i then Text (pageBlock engineSort doc i)
                          else if 0 \<le> i \<and> i < int (numPages doc) then Text [] else Null) idxs))"
  by (induction idxs) (simp_all add: getPageText_cases)

lemma filter_truthy_results:
  "map textOf (filter truthy
      (map (\<lambda>i. if hasText doc i then Text (pageBlock engineSort doc i)
                 else if 0 \<le> i \<and> i < int (numPages doc) then Text [] else Null) idxs))
   = map (pageBlock engineSort doc) (filter (hasText doc) idxs)"
  by (induction idxs) (simp_all add: pageBlock_not_empty)

lemma extractText_window:
  "extractText engineSort doc v =
     (if \<exists>i \<in> set [int v - 1, int v, int v + 1]. fetchFails doc i then None
      else Some (join newline
             (map (pageBlock engineSort doc) (filter (hasText doc) [int v - 1, int v, int v + 1]))))"
  unfolding extractText_def promiseAll_getPageText
  by (simp only: filter_truthy_results option.case if_distrib [of "case_option None _"] cong: if_cong)

text \<open>The page marker prints the page number in decimal.\<close>

lemma readNat_showNat: "readNat (showNat n) = n"
proof (induction n rule: showNat.induct)
  case (1 n)
  show ?case
  proof (cases "n < 10")
    case True
    then show ?thesis
      by (subst showNat.simps) (simp add: readNat_def)
  next
    case False
    then have "readNat (showNat (n div 10)) = n div 10"
      using "1.IH" by simp
    then show ?thesis
      using False by (subst showNat.simps) (simp add: readNat_def)
  qed
qed

lemma mset_concat_sortLines:
  "mset (concat (map line_items (sortLines ls))) = mset (concat (map line_items ls))"
proof -
  have "mset (concat (map line_items xs)) = \<Sum>\<^sub># (image_mset (\<lambda>l. mset (line_items l)) (mset xs))"
    for xs :: "Line list"
    by (induction xs) simp_all
  then show ?thesis
    by (simp add: mset_sortLines)
qed

lemma near_together:
  assumes "near l a" "near l b" "item_y a = Some ya" "item_y b = Some yb"
  shows "\<bar>ya - yb\<bar> < 12"
  using assms by (simp add: near_def yTolerance_def)

section \<open>The smoothing loop and the resize\<close>

lemma curveLoop_map:
  "curveLoop i pts sx sy =
     map (\<lambda>j. QuadraticCurveTo (px (pts ! j) * sx) (py (pts ! j) * sy)
             ((px (pts ! j) + px (pts ! (j + 1))) / 2 * sx)
             ((py (pts ! j) + py (pts ! (j + 1))) / 2 * sy)) [i..<length pts - 1]"
proof (induction i pts sx sy rule: curveLoop.induct)
  case (1 i pts sx sy)
  show ?case
  proof (cases "i < length pts - 1")
    case True
    then show ?thesis
      using "1.IH" by (subst curveLoop.simps) (simp add: upt_conv_Cons)
  next
    case False
    then show ?thesis
      by (subst curveLoop.simps) simp
  qed
qed

lemma resizeCanvas_dims:
  "resizeCanvas cv vp = \<lparr>cv_width = canvasDim (vp_width vp), cv_height = canvasDim (vp_height vp)\<rparr>"
proof (cases "needsResize cv vp")
  case True
  then show ?thesis
    by (simp add: resizeCanvas_def)
next
  case False
  have dim: "canvasDim (real n) = n" for n
    by (simp add: canvasDim_def)
  from False have "vp_width vp = real (cv_width cv)" "vp_height vp = real (cv_height cv)"
    by (simp_all add: needsResize_def)
  then show ?thesis
    by (simp add: resizeCanvas_def dim)
qed

section \<open>The noise gate's loop\<close>

lemma Max_insert_max:
  fixes S :: "real set"
  assumes "finite S"
  shows "Max (insert (max m a) S) = Max (insert m (insert a S))"
proof (cases "S = {}")
  case True
  then show ?thesis by (simp add: max.commute)
next
  case False
  then show ?thesis using assms by (simp add: max.assoc)
qed

lemma maxAmplitudeLoop_Max: "maxAmplitudeLoop m xs = Max (insert m (abs ` set xs))"
proof (induction xs arbitrary: m)
  case Nil
  then show ?case by simp
next
  case (Cons x xs)
  have "(if \<bar>x\<bar> > m then \<bar>x\<bar> else m) = max m \<bar>x\<bar>"
    by (simp add: max_def)
  then have "maxAmplitudeLoop m (x # xs) = Max (insert (max m \<bar>x\<bar>) (abs ` set xs))"
    using Cons.IH [of "max m \<bar>x\<bar>"] by simp
  also have "\<dots> = Max (insert m (insert \<bar>x\<bar> (abs ` set xs)))"
    by (rule Max_insert_max) simp
  finally show ?case by simp
qed

lemma maxAmplitudeLoop_exceeds:
  "t < maxAmplitudeLoop m xs \<longleftrightarrow> t < m \<or> (\<exists>x \<in> set xs. t < \<bar>x\<bar>)"
  by (induction xs arbitrary: m) auto

section \<open>Superseded renders\<close>

lemma latest_append: "latest c (xs @ ys) = latest (latest c xs) ys"
  by (induction c xs rule: latest.induct) simp_all

lemma fresh_append: "fresh c (xs @ ys) = (fresh c xs \<and> fresh (latest c xs) ys)"
  by (induction c xs rule: fresh.induct) auto

lemma begun_append: "begun (xs @ ys) = begun xs @ begun ys"
  by (induction xs rule: begun.induct) simp_all

lemma renderInv_mounted: "renderInv (mounted page cv)"
  by (simp add: renderInv_def mounted_def)

lemma live_is_current:
  assumes "renderInv s" "k < length (tasks s)"
    and "\<not> isCancelled (tasks s ! k) \<or> (phase (tasks s ! k) = Rendering \<and> \<not> renderCancelled (tasks s ! k))"
  shows "current s = Some k \<and> latest None (sf_log s) = Some k"
  using assms unfolding renderInv_def by blast

lemma renderInv_cleanup:
  assumes "renderInv s"
  shows "renderInv (cleanup s) \<and> current (cleanup s) = None"
proof (cases "current s")
  case None
  then show ?thesis using assms by (simp add: cleanup_def)
next
  case (Some k)
  then have k: "k < length (tasks s)"
    using assms by (simp add: renderInv_def)
  show ?thesis
    using assms Some k
    by (auto simp: cleanup_def renderInv_def nth_list_update)
qed

lemma renderInv_effect:
  assumes "renderInv s" "current s = None"
  shows "renderInv (effect v p s)"
  using assms
  by (auto simp: effect_def renderInv_def nth_append fresh_append latest_append begun_append)

lemma renderInv_setPhase:
  assumes "renderInv s" "k < length (tasks s)" "ph \<noteq> Rendering"
  shows "renderInv (setPhase k ph s)"
  using assms
  by (auto simp: setPhase_def renderInv_def nth_list_update)

lemma renderInv_startRender:
  assumes "renderInv s" "k < length (tasks s)" "current s = Some k"
  shows "renderInv (startRender k s)"
  using assms
  by (auto simp: startRender_def renderInv_def nth_list_update)

lemma renderInv_write:
  assumes "renderInv s" "latest None (sf_log s) = Some k"
  shows "renderInv (s\<lparr>sf_log := sf_log s @ [Wrote k w]\<rparr>)"
  using assms
  by (auto simp: renderInv_def fresh_append latest_append begun_append)

lemma renderInv_canvas: "renderInv (s\<lparr>sf_canvas := c\<rparr>) = renderInv s"
  by (simp add: renderInv_def)


lemma tasks_setPhase: "length (tasks (setPhase k ph s)) = length (tasks s)"
  by (simp add: setPhase_def)

lemma renderInv_afterGetPage:
  assumes inv: "renderInv s" and k: "k < length (tasks s)"
  shows "renderInv (afterGetPage k ok s)"
proof (cases "ok \<and> \<not> isCancelled (tasks s ! k)")
  case False
  then show ?thesis
    using inv k by (auto simp: afterGetPage_def renderInv_setPhase)
next
  case True
  then have cur: "current s = Some k" "latest None (sf_log s) = Some k"
    using live_is_current [OF inv k] by simp_all
  show ?thesis
  proof (cases "sf_canvas s")
    case None
    then show ?thesis
      using True inv k by (simp add: afterGetPage_def renderInv_setPhase)
  next
    case (Some cv)
    let ?vp = "getViewport (sf_page s) (r_scale (props (tasks s ! k)))"
    let ?cv = "resizeCanvas cv ?vp"
    let ?ws = "if needsResize cv ?vp then [Wrote k (Resized (cv_width ?cv) (cv_height ?cv))] else []"
    let ?s1 = "s\<lparr>sf_canvas := Some ?cv, sf_log := sf_log s @ ?ws\<rparr>"
    have "renderInv (s\<lparr>sf_log := sf_log s @ ?ws\<rparr>)"
      using renderInv_write [OF inv cur(2)] inv by (cases "needsResize cv ?vp") simp_all
    then have s1: "renderInv ?s1"
      by (simp add: renderInv_def)
    have "renderInv (startRender k ?s1)"
      by (rule renderInv_startRender [OF s1]) (simp_all add: k cur)
    then show ?thesis
      using True Some by (simp add: afterGetPage_def Let_def)
  qed
qed

lemma renderInv_afterRender:
  assumes inv: "renderInv s" and k: "k < length (tasks s)"
  shows "renderInv (afterRender k ok s)"
proof (cases "ok \<and> \<not> isCancelled (tasks s ! k)")
  case False
  then show ?thesis
    using inv k by (auto simp: afterRender_def renderInv_setPhase)
next
  case True
  then have cur: "latest None (sf_log s) = Some k"
    using live_is_current [OF inv k] by simp
  have "renderInv (setPhase k Finished (s\<lparr>sf_log := sf_log s @ [Wrote k w]\<rparr>))" for w
    by (rule renderInv_setPhase [OF renderInv_write [OF inv cur]]) (simp_all add: k)
  then show ?thesis
    using True by (simp add: afterRender_def Let_def)
qed

lemma renderInv_libraryPaints:
  assumes inv: "renderInv s" and k: "k < length (tasks s)" and ph: "phase (tasks s ! k) = Rendering"
  shows "renderInv (libraryPaints k s)"
proof (cases "renderCancelled (tasks s ! k)")
  case True
  then show ?thesis using inv by (simp add: libraryPaints_def)
next
  case False
  then have "latest None (sf_log s) = Some k"
    using live_is_current [OF inv k] ph by simp
  then show ?thesis
    using False renderInv_write [OF inv] by (simp add: libraryPaints_def)
qed

lemma renderInv_step: "renderInv s \<Longrightarrow> renderInv (renderStep s ev)"
proof (cases ev)
  case (DepsChanged v p)
  assume "renderInv s"
  then show ?thesis
    using DepsChanged renderInv_cleanup [of s] renderInv_effect [of "cleanup s" v p] by simp
next
  case (PageSettled k ok)
  assume "renderInv s"
  then show ?thesis
    using PageSettled by (simp add: renderInv_afterGetPage)
next
  case (LibraryPaints k)
  assume "renderInv s"
  then show ?thesis
    using LibraryPaints by (simp add: renderInv_libraryPaints)
next
  case (RenderSettled k ok)
  assume "renderInv s"
  then show ?thesis
    using RenderSettled by (simp add: renderInv_afterRender)
qed

lemma renderInv_run: "renderInv s \<Longrightarrow> renderInv (renderRun s evs)"
  unfolding renderRun_def by (induction evs arbitrary: s) (simp_all add: renderInv_step)

lemma fresh_writer:
  "fresh (Some n) ys \<Longrightarrow> Wrote k w \<in> set ys \<Longrightarrow> k = n \<or> k \<in> set (begun ys)"
proof (induction ys arbitrary: n)
  case Nil
  then show ?case by simp
next
  case (Cons e ys)
  then show ?case
    by (cases e) auto
qed

lemma not_older:
  assumes "renderInv s" "sf_log s = xs @ Begin n # ys" "Wrote k w \<in> set ys"
  shows "n \<le> k"
proof -
  have "fresh (Some n) ys"
    using assms(1,2) by (simp add: renderInv_def fresh_append)
  then have k: "k = n \<or> k \<in> set (begun ys)"
    using assms(3) by (rule fresh_writer)
  have "begun xs @ n # begun ys = [0..<length (tasks s)]"
    using assms(1,2) by (simp add: renderInv_def begun_append)
  then have "sorted_wrt (<) (begun xs @ n # begun ys)"
    by (simp only: sorted_wrt_upt)
  then have "\<forall>m \<in> set (begun ys). n < m"
    by (simp add: sorted_wrt_append)
  then show ?thesis
    using k by auto
qed

section \<open>Fit requests from the toolbar\<close>

text \<open>
  With a document in the handler's state, the scroll container mounted and the current
  page of positive natural size, \<open>handleFit\<close> sets the scale to the container's
  client width minus the padding of 32, divided by the page's natural width, the width
  of its viewport at scale 1, clamped into [0.4, 4.0]; fit-to-page does the same with
  the heights. A click on the toolbar runs the handler on the current state.
\<close>

lemma fit_scale:
  assumes "0 \<le> v" and "getPage doc (v + 1) = Some page"
    and "0 < naturalWidth page" and "0 < naturalHeight page"
  shows "handleFit FitWidth (Some doc) (Some c) v scale
           = min (max ((real_of_int (clientWidth c) - 32) / vp_width (getViewport page 1)) 0.4) 4.0
       \<and> handleFit FitPage (Some doc) (Some c) v scale
           = min (max ((real_of_int (clientHeight c) - 32) / vp_height (getViewport page 1)) 0.4) 4.0
       \<and> vp_width (getViewport page 1) = naturalWidth page
       \<and> vp_height (getViewport page 1) = naturalHeight page
       \<and> 0.4 \<le> handleFit ty (Some doc) (Some c) v scale
       \<and> handleFit ty (Some doc) (Some c) v scale \<le> 4.0"
proof -
  have w: "handleFit FitWidth (Some doc) (Some c) v scale
           = min (max ((real_of_int (clientWidth c) - 32) / vp_width (getViewport page 1)) 0.4) 4.0"
    using assms(1,2) by (simp add: handleFit_def)
  have h: "handleFit FitPage (Some doc) (Some c) v scale
           = min (max ((real_of_int (clientHeight c) - 32) / vp_height (getViewport page 1)) 0.4) 4.0"
    using assms(1,2) by (simp add: handleFit_def)
  have n: "vp_width (getViewport page 1) = naturalWidth page"
    "vp_height (getViewport page 1) = naturalHeight page"
    by (simp_all add: getViewport_def)
  have r: "0.4 \<le> handleFit ty (Some doc) (Some c) v scale \<and> handleFit ty (Some doc) (Some c) v scale \<le> 4.0"
    using w h by (cases ty) simp_all
  show ?thesis
    using w h n r by blast
qed

lemma fit_scale_example:
  "handleFit FitWidth (Some [exLetter\<lparr>naturalWidth := 600\<rparr>])
       (Some \<lparr>clientWidth = 900, clientHeight = 700\<rparr>) 0 1.2 = (900 - 32) / 600
   \<and> handleFit FitPage (Some [exLetter\<lparr>naturalWidth := 600\<rparr>])
       (Some \<lparr>clientWidth = 900, clientHeight = 700\<rparr>) 0 1.2 = (700 - 32) / 792"
proof -
  have pg: "getPage [exLetter\<lparr>naturalWidth := 600\<rparr>] (0 + 1) = Some (exLetter\<lparr>naturalWidth := 600\<rparr>)"
    by (simp add: getPage_def)
  have pos: "0 < naturalWidth (exLetter\<lparr>naturalWidth := 600\<rparr>)"
    "0 < naturalHeight (exLetter\<lparr>naturalWidth := 600\<rparr>)"
    by (simp_all add: exLetter_def)
  show ?thesis
    using fit_scale [OF order_refl pg pos, of "\<lparr>clientWidth = 900, clientHeight = 700\<rparr>" "1.2" FitWidth]
    by (simp add: getViewport_def exLetter_def)
qed

lemma clickFit_scale:
  assumes "v_pdfDoc s = Some doc" "0 \<le> v_visiblePageIndex s"
    and "getPage doc (v_visiblePageIndex s + 1) = Some page"
    and "0 < naturalWidth page" and "0 < naturalHeight page"
  shows "v_scale (clickFit FitWidth (Some c) s)
           = min (max ((real_of_int (clientWidth c) - 32) / naturalWidth page) 0.4) 4.0"
  using fit_scale [OF assms(2-5), of c "v_scale s" FitWidth] assms(1)
  by (simp add: clickFit_def)

section \<open>Properties\<close>

text \<open>
  C1. The application holds at most one stored annotation at any time. Whatever sequence
  of pointer and clear events the reader has processed, at most one page is rendered with
  a stored annotation. \<open>handleStartDraw\<close> empties the slot, and so does a pointer-down
  on any page while a drawing tool is selected; \<open>handleFinishDraw i p\<close> sets the slot to
  exactly \<open>{pageIndex = i, path = p}\<close> whatever it held before; \<open>clearDrawings\<close>
  empties it. Consequently, when an annotation is stored on page \<open>A\<close> and a stroke
  (pointer-down, any moves, pointer-up) is drawn on a different page \<open>B\<close>, page
  \<open>A\<close> is left without an annotation and \<open>B\<close> is the only annotated page.
\<close>

theorem single_annotation_slot:
  "card (annotatedPages (reader (run a evs))) \<le> 1
   \<and> activeAnnotation (handleStartDraw s) = None
   \<and> (mode (tools a) \<noteq> Move \<longrightarrow> activeAnnotation (reader (step a (PointerDown i e))) = None)
   \<and> activeAnnotation (handleFinishDraw i p s) = Some \<lparr>pageIndex = i, path = p\<rparr>
   \<and> activeAnnotation (clearDrawings s) = None
   \<and> (activeAnnotation (reader a) = Some \<lparr>pageIndex = A, path = q\<rparr> \<and> A \<noteq> B
        \<and> mode (tools a) \<noteq> Move \<and> canvasRef (pages a B) = Some cv \<longrightarrow>
        annotationProp (reader (run a (PointerDown B e # map (PointerMove B) ms @ [PointerUp B]))) A = None
        \<and> annotatedPages (reader (run a (PointerDown B e # map (PointerMove B) ms @ [PointerUp B]))) = {B})"
proof -
  have c1: "card (annotatedPages (reader (run a evs))) \<le> 1"
    by (rule card_annotatedPages)
  have c2: "activeAnnotation (handleStartDraw s) = None"
    by (simp add: handleStartDraw_def)
  have c3: "mode (tools a) \<noteq> Move \<longrightarrow> activeAnnotation (reader (step a (PointerDown i e))) = None"
    using activeAnnotation_startDrawing [of a i e] by blast
  have c4: "activeAnnotation (handleFinishDraw i p s) = Some \<lparr>pageIndex = i, path = p\<rparr>"
    by (simp add: handleFinishDraw_def activeAnnotation_captureFrame)
  have c5: "activeAnnotation (clearDrawings s) = None"
    by (simp add: clearDrawings_def activeAnnotation_captureFrame)
  have c6: "annotationProp (reader (run a (PointerDown B e # map (PointerMove B) ms @ [PointerUp B]))) A = None
        \<and> annotatedPages (reader (run a (PointerDown B e # map (PointerMove B) ms @ [PointerUp B]))) = {B}"
    if h: "A \<noteq> B" "mode (tools a) \<noteq> Move" "canvasRef (pages a B) = Some cv"
  proof -
    obtain p' where p': "activeAnnotation
        (reader (run a (PointerDown B e # map (PointerMove B) ms @ [PointerUp B])))
        = Some \<lparr>pageIndex = B, path = p'\<rparr>"
      using stroke_replaces [OF h(2) h(3)] by blast
    show ?thesis
      using h(1) p' annotatedPages_Some [OF p'] by (simp add: annotationProp_def)
  qed
  show ?thesis
    using c1 c2 c3 c4 c5 c6 by blast
qed

theorem single_annotation_slot_witness:
  "activeAnnotation (reader exApp) = Some \<lparr>pageIndex = 2, path = exStroke\<rparr> \<and> (2::nat) \<noteq> 5
   \<and> mode (tools exApp) \<noteq> Move
   \<and> canvasRef (pages exApp 5) = Some \<lparr>cv_width = 600, cv_height = 800\<rparr>
   \<and> annotationProp (reader (run exApp (PointerDown 5 (exEvent 150 100) #
          map (PointerMove 5) [exEvent 160 110] @ [PointerUp 5]))) 2 = None
   \<and> annotatedPages (reader (run exApp (PointerDown 5 (exEvent 150 100) #
          map (PointerMove 5) [exEvent 160 110] @ [PointerUp 5]))) = {5}"
  using single_annotation_slot [of exApp "[]" "reader exApp" 5 "exEvent 150 100" exStroke 2
      exStroke 5 "\<lparr>cv_width = 600, cv_height = 800\<rparr>" "[exEvent 160 110]"]
  by (simp add: exApp_def exTools_def exPage_def)

text \<open>
  C2. For every page and every sequence of effect runs, promise continuations and
  library paints, starting from a freshly mounted page: every write to the page's raster
  (a resize, painted pixels, the annotation overlay) comes from the render that began
  last before the write, so only the most recent render reaches the raster; and when a
  render \<open>n\<close> has begun, whatever is written afterwards comes from \<open>n\<close> or from a
  render that began later, never from an older one. The library's render task is taken
  to paint nothing after \<open>cancel()\<close>.
\<close>

theorem newer_render_supersedes:
  "fresh None (sf_log (renderRun (mounted page cv) evs))
   \<and> (sf_log (renderRun (mounted page cv) evs) = xs @ Begin n # ys \<and> Wrote k w \<in> set ys
        \<longrightarrow> n \<le> k)"
proof -
  have inv: "renderInv (renderRun (mounted page cv) evs)"
    by (rule renderInv_run) (rule renderInv_mounted)
  then have f: "fresh None (sf_log (renderRun (mounted page cv) evs))"
    by (simp add: renderInv_def)
  have "n \<le> k"
    if "sf_log (renderRun (mounted page cv) evs) = xs @ Begin n # ys" "Wrote k w \<in> set ys"
    using not_older [OF inv that] .
  then show ?thesis
    using f by blast
qed

theorem newer_render_supersedes_witness:
  "sf_log (renderRun (mounted exLetter (Some exCanvas)) exRenderEvents)
     = [Begin 0, Wrote 0 (Resized 612 792), Wrote 0 Pixels]
       @ Begin 1 # [Wrote 1 (Resized 1224 1584), Wrote 1 Pixels,
                    Wrote 1 (Overlay [SetLineCap ''round'', SetLineJoin ''round''])]
   \<and> Wrote 1 Pixels \<in> set [Wrote 1 (Resized 1224 1584), Wrote 1 Pixels,
                               Wrote 1 (Overlay [SetLineCap ''round'', SetLineJoin ''round''])]
   \<and> (1::nat) \<le> 1
   \<and> fresh None (sf_log (renderRun (mounted exLetter (Some exCanvas)) exRenderEvents))"
proof -
  have run: "sf_log (renderRun (mounted exLetter (Some exCanvas)) exRenderEvents)
     = [Begin 0, Wrote 0 (Resized 612 792), Wrote 0 Pixels]
       @ Begin 1 # [Wrote 1 (Resized 1224 1584), Wrote 1 Pixels,
                    Wrote 1 (Overlay [SetLineCap ''round'', SetLineJoin ''round''])]"
    by code_simp
  show ?thesis
    using run newer_render_supersedes [of exLetter "Some exCanvas" exRenderEvents
        "[Begin 0, Wrote 0 (Resized 612 792), Wrote 0 Pixels]" 1
        "[Wrote 1 (Resized 1224 1584), Wrote 1 Pixels,
          Wrote 1 (Overlay [SetLineCap ''round'', SetLineJoin ''round''])]" 1 Pixels]
    by simp
qed

text \<open>
  C3. A finished stroke holds the raw points of the gesture divided by the raster's
  width and height. Raw points inside the raster give normalized points in the unit
  square (lemma \<open>normalizePoint_unit\<close>), but \<open>getPoint\<close> takes the pointer position
  as it comes: a touch that starts on the canvas at client position (150, 100) and moves
  to (90, 100), left of the canvas's edge at 100, finishes as a stroke whose second point
  has the negative abscissa \<open>-1/60\<close>.
\<close>

theorem stroke_leaves_unit_square:
  "snd (stopDrawing exTools 0
          (draw exTools (exEvent 90 100)
             (fst (startDrawing exTools (exEvent 150 100) exPage))))
   = [OnFinishDraw 0
        \<lparr>points = [\<lparr>px = 1 / 12, py = 1 / 16\<rparr>, \<lparr>px = - (1 / 60), py = 1 / 16\<rparr>],
         color = ''#ef4444'', width = 4\<rparr>]"
  by (simp add: stopDrawing_def draw_def startDrawing_def getPoint_def normalizePoint_def
      exTools_def exPage_def exEvent_def)

theorem stroke_leaves_unit_square_witness:
  "(case snd (stopDrawing exTools 0
          (draw exTools (exEvent 90 100)
             (fst (startDrawing exTools (exEvent 150 100) exPage)))) of
      [OnFinishDraw i p] \<Rightarrow> px (points p ! 1) < 0
    | _ \<Rightarrow> False)"
  using stroke_leaves_unit_square by simp

text \<open>
  C4, as stated, fails: the raster is not rounded to the nearest pixel. A page of natural
  width 612 rendered at scale 1.3, inside [0.4, 4.0], has a viewport 795.6 wide; the
  canvas resized to it is 795 pixels wide, where rounding gives 796.
\<close>

theorem raster_width_not_rounded:
  "(0.4::real) \<le> 1.3 \<and> (1.3::real) \<le> 4.0
   \<and> cv_width (resizeCanvas exCanvas (getViewport exLetter 1.3)) = 795
   \<and> round (naturalWidth exLetter * 1.3) = 796"
  by (simp add: resizeCanvas_def needsResize_def getViewport_def exLetter_def exCanvas_def
      canvasDim_def round_def)

text \<open>
  C4, amended. For every scale factor \<open>s\<close>, in particular for \<open>s\<close> in [0.4, 4.0],
  resizing the canvas to the page's viewport at scale \<open>s\<close> leaves a raster of
  \<open>floor (naturalWidth * s)\<close> by \<open>floor (naturalHeight * s)\<close> pixels, whatever its
  size was before; \<open>naturalWidth\<close> and \<open>naturalHeight\<close> are the viewport's
  dimensions at scale 1. This is the size of the canvas once a task of the render
  effect that was not cancelled has passed \<open>await getPage\<close>.
\<close>

theorem raster_dimensions:
  "resizeCanvas cv (getViewport page s)
     = \<lparr>cv_width = nat \<lfloor>naturalWidth page * s\<rfloor>, cv_height = nat \<lfloor>naturalHeight page * s\<rfloor>\<rparr>
   \<and> naturalWidth page = vp_width (getViewport page 1)
   \<and> naturalHeight page = vp_height (getViewport page 1)
   \<and> (k < length (tasks sf) \<and> phase (tasks sf ! k) = AwaitPage \<and> \<not> isCancelled (tasks sf ! k)
        \<and> sf_canvas sf = Some cv \<and> r_scale (props (tasks sf ! k)) = s \<longrightarrow>
      sf_canvas (renderStep sf (PageSettled k True))
        = Some \<lparr>cv_width = nat \<lfloor>naturalWidth (sf_page sf) * s\<rfloor>,
                 cv_height = nat \<lfloor>naturalHeight (sf_page sf) * s\<rfloor>\<rparr>)"
proof -
  have dims: "resizeCanvas c (getViewport pg s)
     = \<lparr>cv_width = nat \<lfloor>naturalWidth pg * s\<rfloor>, cv_height = nat \<lfloor>naturalHeight pg * s\<rfloor>\<rparr>"
    for c pg
    by (simp add: resizeCanvas_dims canvasDim_def getViewport_def)
  have nat1: "naturalWidth page = vp_width (getViewport page 1)"
    "naturalHeight page = vp_height (getViewport page 1)"
    by (simp_all add: getViewport_def)
  have eff: "sf_canvas (renderStep sf (PageSettled k True))
        = Some \<lparr>cv_width = nat \<lfloor>naturalWidth (sf_page sf) * s\<rfloor>,
                 cv_height = nat \<lfloor>naturalHeight (sf_page sf) * s\<rfloor>\<rparr>"
    if "k < length (tasks sf)" "phase (tasks sf ! k) = AwaitPage" "\<not> isCancelled (tasks sf ! k)"
      "sf_canvas sf = Some cv" "r_scale (props (tasks sf ! k)) = s"
    using that dims [of cv "sf_page sf"]
    by (simp add: afterGetPage_def startRender_def Let_def)
  show ?thesis
    using dims [of cv page] nat1 eff by blast
qed

theorem raster_dimensions_witness:
  "resizeCanvas exCanvas (getViewport exLetter 1.3) = \<lparr>cv_width = 795, cv_height = 1029\<rparr>
   \<and> resizeCanvas exCanvas (getViewport exLetter 0.4) = \<lparr>cv_width = 244, cv_height = 316\<rparr>"
proof -
  have "nat \<lfloor>naturalWidth exLetter * 1.3\<rfloor> = 795" "nat \<lfloor>naturalHeight exLetter * 1.3\<rfloor> = 1029"
    "nat \<lfloor>naturalWidth exLetter * 0.4\<rfloor> = 244" "nat \<lfloor>naturalHeight exLetter * 0.4\<rfloor> = 316"
    by (simp_all add: exLetter_def)
  then show ?thesis
    using raster_dimensions [of exCanvas exLetter "1.3"] raster_dimensions [of exCanvas exLetter "0.4"]
    by simp
qed

text \<open>
  C5. Within a line the loop puts one space before an item exactly when the item starts
  more than 3 units right of the previous item's right edge, provided that edge is not
  \<open>-1\<close> (lemmas \<open>joinItems_spaced\<close> and \<open>lineText_pair\<close>): \<open>-1\<close> is the
  loop's mark for "no previous item". An item \<open>A\<close> at \<open>x = -11\<close> of width 10 ends
  at \<open>-1\<close>; the next item \<open>B\<close> of the line starts at \<open>x = 100\<close>, a gap of
  101 units, and the two are joined with no space.
\<close>

theorem no_space_after_right_edge_minus_one:
  "item_x (exItem ''A'' (- 11) 100 10) = Some (- 11)
   \<and> item_x (exItem ''B'' 100 100 30) = Some 100
   \<and> xkey (exItem ''B'' 100 100 30)
       - (xkey (exItem ''A'' (- 11) 100 10) + item_width (exItem ''A'' (- 11) 100 10)) = 101
   \<and> lineText engineSort
        \<lparr>line_y = 100, line_items = [exItem ''A'' (- 11) 100 10, exItem ''B'' 100 100 30]\<rparr>
       = ''AB''"
  by (simp add: lineText_def sortItems_def item_x_def xkey_def entry_def jsAdd_def jsGreater_def
      exItem_def)

theorem no_space_after_right_edge_minus_one_witness:
  "CHR '' '' \<notin> set (lineText (\<lambda>its. its) \<lparr>line_y = 100,
      line_items = [exItem ''A'' (- 11) 100 10, exItem ''B'' 100 100 30]\<rparr>)"
  using no_space_after_right_edge_minus_one [of "\<lambda>its. its"] by simp

text \<open>
  C6, as stated, fails: two items whose ordinates differ by less than 6 need not land in
  one line. Items arrive at \<open>y = 100\<close>, \<open>95\<close> and \<open>90\<close>: the second joins the line
  opened at 100, the third is 10 away from that line's \<open>y\<close> and opens a line of its
  own, although it is only 5 away from the second item.
\<close>

theorem close_items_in_two_lines:
  "item_y (exItem ''b'' 20 95 10) = Some 95 \<and> item_y (exItem ''c'' 40 90 10) = Some 90
   \<and> \<bar>95 - 90\<bar> < (6::real)
   \<and> groupLines [exItem ''a'' 0 100 10, exItem ''b'' 20 95 10, exItem ''c'' 40 90 10]
       = [\<lparr>line_y = 100, line_items = [exItem ''a'' 0 100 10, exItem ''b'' 20 95 10]\<rparr>,
          \<lparr>line_y = 90, line_items = [exItem ''c'' 40 90 10]\<rparr>]"
  by (simp add: groupLines_def addItem_def item_y_def exItem_def yTolerance_def)

text \<open>
  C6, amended. The items of a page are put into lines one after the other, in their
  order, starting with no line. The ordinate of an item is entry 5 of its transform. An
  item joins, as its last item, the first of the lines made so far whose \<open>y\<close> differs
  from the item's ordinate by strictly less than 6; when there is no such line it opens
  a new line, placed last, whose \<open>y\<close> is the item's ordinate. An item without a
  transform of six entries opens a new line at \<open>y = 0\<close>. So the lines hold exactly
  the page's items, every item lies less than 6 from the \<open>y\<close> of its line, two items
  of a line differ by less than 12, and on a page of two items the two share a line
  exactly when their ordinates differ by strictly less than 6. The lines are then put in
  descending order of \<open>y\<close>, lines of equal \<open>y\<close> keeping their order. The items of
  each line are put in ascending order of their abscissa, entry 4 of the transform (0
  without a transform), items of equal abscissa keeping their order; this holds for a
  line whose items all have an abscissa. The page's text is built from the lines and
  items in these orders.
\<close>

theorem line_grouping:
  "groupLines [] = []
   \<and> (item_y it = None \<longrightarrow>
        groupLines (its @ [it]) = groupLines its @ [\<lparr>line_y = 0, line_items = [it]\<rparr>])
   \<and> (item_y it = Some y \<and> (\<forall>l \<in> set (groupLines its). \<not> \<bar>line_y l - y\<bar> < 6) \<longrightarrow>
        groupLines (its @ [it]) = groupLines its @ [\<lparr>line_y = y, line_items = [it]\<rparr>])
   \<and> (item_y it = Some y \<and> i < length (groupLines its) \<and> \<bar>line_y (groupLines its ! i) - y\<bar> < 6
        \<and> (\<forall>j < i. \<not> \<bar>line_y (groupLines its ! j) - y\<bar> < 6) \<longrightarrow>
        groupLines (its @ [it]) =
          (groupLines its)[i := (groupLines its ! i)
                                  \<lparr>line_items := line_items (groupLines its ! i) @ [it]\<rparr>])
   \<and> (transform it = Some t \<and> 6 \<le> length t \<longrightarrow> item_y it = Some (t ! 5) \<and> item_x it = Some (t ! 4))
   \<and> (transform it = None \<longrightarrow> item_y it = None \<and> item_x it = Some 0)
   \<and> (transform it = Some t \<and> length t < 6 \<longrightarrow> item_y it = None)
   \<and> mset (concat (map line_items (sortLines (groupLines its)))) = mset its
   \<and> (\<forall>l \<in> set (sortLines (groupLines its)). \<forall>c \<in> set (line_items l). near l c)
   \<and> (\<forall>l \<in> set (sortLines (groupLines its)). \<forall>c \<in> set (line_items l). \<forall>d \<in> set (line_items l).
         \<forall>yc yd. item_y c = Some yc \<and> item_y d = Some yd \<longrightarrow> \<bar>yc - yd\<bar> < 12)
   \<and> (item_y a = Some ya \<and> item_y b = Some yb \<longrightarrow>
        groupLines [a, b] =
          (if \<bar>ya - yb\<bar> < 6
           then [\<lparr>line_y = ya, line_items = [a, b]\<rparr>]
           else [\<lparr>line_y = ya, line_items = [a]\<rparr>, \<lparr>line_y = yb, line_items = [b]\<rparr>]))
   \<and> sorted_wrt (\<lambda>l l'. line_y l \<ge> line_y l') (sortLines ls)
   \<and> filter (\<lambda>l. line_y l = z) (sortLines ls) = filter (\<lambda>l. line_y l = z) ls
   \<and> mset (sortLines ls) = mset ls
   \<and> ((\<forall>c \<in> set (line_items k). item_x c \<noteq> None) \<longrightarrow>
        sorted (map xkey (sortItems engineSort (line_items k)))
        \<and> filter (\<lambda>c. xkey c = x) (sortItems engineSort (line_items k))
            = filter (\<lambda>c. xkey c = x) (line_items k)
        \<and> mset (sortItems engineSort (line_items k)) = mset (line_items k))
   \<and> pageBody engineSort its =
        join newline
          (map (\<lambda>l. joinItems [] (Some (- 1)) (sortItems engineSort (line_items l)))
             (sortLines (groupLines its)))"
proof -
  have anch: "anchored (sortLines (groupLines its))"
    by (simp add: anchored_sortLines anchored_groupLines)
  have g0: "groupLines [] = []"
    by (simp add: groupLines_def)
  have g1: "item_y it = None \<longrightarrow>
        groupLines (its @ [it]) = groupLines its @ [\<lparr>line_y = 0, line_items = [it]\<rparr>]"
    by (simp add: groupLines_snoc addItem_def)
  have g2: "item_y it = Some y \<and> (\<forall>l \<in> set (groupLines its). \<not> \<bar>line_y l - y\<bar> < 6) \<longrightarrow>
        groupLines (its @ [it]) = groupLines its @ [\<lparr>line_y = y, line_items = [it]\<rparr>]"
    using findAndPush_new [of "groupLines its" y it]
    by (simp add: groupLines_snoc addItem_def yTolerance_def)
  have g3: "item_y it = Some y \<and> i < length (groupLines its) \<and> \<bar>line_y (groupLines its ! i) - y\<bar> < 6
        \<and> (\<forall>j < i. \<not> \<bar>line_y (groupLines its ! j) - y\<bar> < 6) \<longrightarrow>
        groupLines (its @ [it]) =
          (groupLines its)[i := (groupLines its ! i)
                                  \<lparr>line_items := line_items (groupLines its ! i) @ [it]\<rparr>]"
    using findAndPush_first [of i "groupLines its" y it]
    by (simp add: groupLines_snoc addItem_def yTolerance_def)
  have r1: "transform it = Some t \<and> 6 \<le> length t \<longrightarrow> item_y it = Some (t ! 5) \<and> item_x it = Some (t ! 4)"
    by (simp add: item_y_def item_x_def entry_def)
  have r2: "transform it = None \<longrightarrow> item_y it = None \<and> item_x it = Some 0"
    by (simp add: item_y_def item_x_def)
  have r3: "transform it = Some t \<and> length t < 6 \<longrightarrow> item_y it = None"
    by (simp add: item_y_def)
  have c1: "mset (concat (map line_items (sortLines (groupLines its)))) = mset its"
    by (simp add: mset_concat_sortLines mset_groupLines)
  have c2: "\<forall>l \<in> set (sortLines (groupLines its)). \<forall>c \<in> set (line_items l). near l c"
    using anch by (simp add: anchored_def)
  have c3: "\<forall>l \<in> set (sortLines (groupLines its)). \<forall>c \<in> set (line_items l). \<forall>d \<in> set (line_items l).
         \<forall>yc yd. item_y c = Some yc \<and> item_y d = Some yd \<longrightarrow> \<bar>yc - yd\<bar> < 12"
    using c2 near_together by blast
  have c4: "item_y a = Some ya \<and> item_y b = Some yb \<longrightarrow>
        groupLines [a, b] =
          (if \<bar>ya - yb\<bar> < 6
           then [\<lparr>line_y = ya, line_items = [a, b]\<rparr>]
           else [\<lparr>line_y = ya, line_items = [a]\<rparr>, \<lparr>line_y = yb, line_items = [b]\<rparr>])"
    using groupLines_pair [of a ya b yb] by blast
  have s1: "sorted_wrt (\<lambda>l l'. line_y l \<ge> line_y l') (sortLines ls)"
    by (rule sortLines_descending)
  have s2: "filter (\<lambda>l. line_y l = z) (sortLines ls) = filter (\<lambda>l. line_y l = z) ls"
    by (rule sortLines_stable)
  have s3: "mset (sortLines ls) = mset ls"
    by (rule mset_sortLines)
  have x1: "(\<forall>c \<in> set (line_items k). item_x c \<noteq> None) \<longrightarrow>
        sorted (map xkey (sortItems engineSort (line_items k)))
        \<and> filter (\<lambda>c. xkey c = x) (sortItems engineSort (line_items k))
            = filter (\<lambda>c. xkey c = x) (line_items k)
        \<and> mset (sortItems engineSort (line_items k)) = mset (line_items k)"
    using sortItems_ascending [of "line_items k" engineSort]
      sortItems_stable [of "line_items k" x engineSort]
      mset_sortItems [of "line_items k" engineSort]
    by blast
  have b1: "pageBody engineSort its =
        join newline
          (map (\<lambda>l. joinItems [] (Some (- 1)) (sortItems engineSort (line_items l)))
             (sortLines (groupLines its)))"
    by (simp add: pageBody_def lineText_def [abs_def])
  show ?thesis
    using g0 g1 g2 g3 r1 r2 r3 c1 c2 c3 c4 s1 s2 s3 x1 b1 by blast
qed

theorem line_grouping_witness:
  "groupLines ([exItem ''a'' 0 100 10] @ [exItem ''b'' 20 104 10])
     = [\<lparr>line_y = 100, line_items = [exItem ''a'' 0 100 10, exItem ''b'' 20 104 10]\<rparr>]
   \<and> groupLines ([exItem ''a'' 0 100 10] @ [exItem ''b'' 20 110 10])
     = [\<lparr>line_y = 100, line_items = [exItem ''a'' 0 100 10]\<rparr>,
        \<lparr>line_y = 110, line_items = [exItem ''b'' 20 110 10]\<rparr>]
   \<and> groupLines ([exItem ''a'' 0 100 10]
        @ [\<lparr>str = ''s'', transform = Some [1, 0, 0, 1, 50], item_width = 5\<rparr>])
     = [\<lparr>line_y = 100, line_items = [exItem ''a'' 0 100 10]\<rparr>,
        \<lparr>line_y = 0, line_items = [\<lparr>str = ''s'', transform = Some [1, 0, 0, 1, 50], item_width = 5\<rparr>]\<rparr>]
   \<and> sortLines [\<lparr>line_y = 100, line_items = [exItem ''a'' 0 100 10]\<rparr>,
                \<lparr>line_y = 110, line_items = [exItem ''b'' 20 110 10]\<rparr>]
     = [\<lparr>line_y = 110, line_items = [exItem ''b'' 20 110 10]\<rparr>,
        \<lparr>line_y = 100, line_items = [exItem ''a'' 0 100 10]\<rparr>]
   \<and> sorted (map xkey (sortItems (\<lambda>its. its)
        [exItem ''World'' 54 100 30, exItem ''Hello'' 10 100 40]))
   \<and> sortItems (\<lambda>its. its) [exItem ''World'' 54 100 30, exItem ''Hello'' 10 100 40]
     = [exItem ''Hello'' 10 100 40, exItem ''World'' 54 100 30]"
proof -
  let ?a = "exItem ''a'' 0 100 10"
  let ?b104 = "exItem ''b'' 20 104 10"
  let ?b110 = "exItem ''b'' 20 110 10"
  let ?s = "\<lparr>str = ''s'', transform = Some [1, 0, 0, 1, 50], item_width = 5\<rparr>"
  let ?k = "\<lparr>line_y = 100, line_items = [exItem ''World'' 54 100 30, exItem ''Hello'' 10 100 40]\<rparr>"
  have one: "groupLines [?a] = [\<lparr>line_y = 100, line_items = [?a]\<rparr>]"
    by (simp add: groupLines_def addItem_def item_y_def exItem_def)
  have ys: "item_y ?b104 = Some 104" "item_y ?b110 = Some 110" "item_y ?s = None"
    by (simp_all add: item_y_def exItem_def)
  have xs: "\<forall>c \<in> set (line_items ?k). item_x c \<noteq> None"
    by (simp add: item_x_def entry_def exItem_def)
  have join: "groupLines ([?a] @ [?b104]) = [\<lparr>line_y = 100, line_items = [?a, ?b104]\<rparr>]"
    using line_grouping [where its = "[?a]" and it = ?b104 and y = 104 and i = 0,
        THEN conjunct2, THEN conjunct2, THEN conjunct2, THEN conjunct1] one ys(1)
    by simp
  have new: "groupLines ([?a] @ [?b110])
      = [\<lparr>line_y = 100, line_items = [?a]\<rparr>, \<lparr>line_y = 110, line_items = [?b110]\<rparr>]"
    using line_grouping [where its = "[?a]" and it = ?b110 and y = 110,
        THEN conjunct2, THEN conjunct2, THEN conjunct1] one ys(2)
    by simp
  have short: "groupLines ([?a] @ [?s])
      = [\<lparr>line_y = 100, line_items = [?a]\<rparr>, \<lparr>line_y = 0, line_items = [?s]\<rparr>]"
    using line_grouping [where its = "[?a]" and it = ?s, THEN conjunct2, THEN conjunct1]
      one ys(3)
    by simp
  have sl: "sortLines [\<lparr>line_y = 100, line_items = [?a]\<rparr>, \<lparr>line_y = 110, line_items = [?b110]\<rparr>]
      = [\<lparr>line_y = 110, line_items = [?b110]\<rparr>, \<lparr>line_y = 100, line_items = [?a]\<rparr>]"
    by (simp add: sortLines_def)
  have "(\<forall>c \<in> set (line_items ?k). item_x c \<noteq> None) \<longrightarrow>
      sorted (map xkey (sortItems (\<lambda>its. its) (line_items ?k)))"
    using line_grouping [where k = ?k and engineSort = "\<lambda>its. its" and its = "[]" and it = ?a
        and y = 0 and i = 0 and t = "[]" and a = ?a and b = ?a and ya = 0 and yb = 0 and ls = "[]"
        and z = 0 and x = 0]
    by blast
  then have sorted: "sorted (map xkey (sortItems (\<lambda>its. its) (line_items ?k)))"
    using xs by blast
  have si: "sortItems (\<lambda>its. its) [exItem ''World'' 54 100 30, exItem ''Hello'' 10 100 40]
      = [exItem ''Hello'' 10 100 40, exItem ''World'' 54 100 30]"
    by (simp add: sortItems_def item_x_def xkey_def entry_def exItem_def)
  show ?thesis
    using join new short sl sorted si by simp
qed

text \<open>
  C7, as stated, fails: a page inside the document that has no text items is fetched,
  and its text is the empty string, with no page marker; the filter then drops it. For
  a document of one page without text and current page 0, page 0 is in range, its text
  is empty and so is the delivered context, which names no page.
\<close>

theorem empty_page_has_no_marker:
  "(0::int) < int (numPages [exTextPage []])
   \<and> getPageText (\<lambda>its. its) [exTextPage []] 0 = Some (Text [])
   \<and> pageMarker 0 = ''--- [Page 1] ---''
   \<and> extractText (\<lambda>its. its) [exTextPage []] 0 = Some []"
  by code_simp

text \<open>
  C7, amended. For every document and current page index \<open>v\<close>, when no fetch of a page
  of the window fails, the delivered context is the blocks of the pages among
  \<open>v - 1\<close>, \<open>v\<close>, \<open>v + 1\<close> that are inside the document and have at least one text
  item, in this order and joined with a newline; pages outside the document and pages
  without text items contribute nothing. The block of page \<open>i\<close> is the marker
  \<open>--- [Page i+1] ---\<close>, whose number reads back as \<open>i + 1\<close>, a newline, the
  reconstructed lines of the page and a newline. When a fetch fails nothing is delivered.
\<close>

theorem context_window:
  "extractText engineSort doc v =
     (if \<exists>i \<in> set [int v - 1, int v, int v + 1]. fetchFails doc i then None
      else Some (join newline
             (map (\<lambda>i. pageMarker i @ newline @ pageBody engineSort (pageItems doc i) @ newline)
                (filter (\<lambda>i. 0 \<le> i \<and> i < int (numPages doc) \<and> pageItems doc i \<noteq> [])
                   [int v - 1, int v, int v + 1]))))
   \<and> (0 \<le> i \<longrightarrow> pageMarker i = ''--- [Page '' @ showNat (nat (i + 1)) @ ''] ---''
         \<and> int (readNat (showNat (nat (i + 1)))) = i + 1)"
proof -
  have blk: "pageBlock engineSort doc
      = (\<lambda>i. pageMarker i @ newline @ pageBody engineSort (pageItems doc i) @ newline)"
    by (rule ext) (simp add: pageBlock_def)
  have ht: "hasText doc = (\<lambda>i. 0 \<le> i \<and> i < int (numPages doc) \<and> pageItems doc i \<noteq> [])"
    by (rule ext) (simp add: hasText_def)
  have win: "extractText engineSort doc v =
     (if \<exists>i \<in> set [int v - 1, int v, int v + 1]. fetchFails doc i then None
      else Some (join newline
             (map (\<lambda>i. pageMarker i @ newline @ pageBody engineSort (pageItems doc i) @ newline)
                (filter (\<lambda>i. 0 \<le> i \<and> i < int (numPages doc) \<and> pageItems doc i \<noteq> [])
                   [int v - 1, int v, int v + 1]))))"
    using extractText_window [of engineSort doc v] unfolding blk ht .
  have mark: "0 \<le> i \<longrightarrow> pageMarker i = ''--- [Page '' @ showNat (nat (i + 1)) @ ''] ---''
         \<and> int (readNat (showNat (nat (i + 1)))) = i + 1"
    by (simp add: pageMarker_def readNat_showNat)
  show ?thesis
    using win mark by blast
qed

theorem context_window_witness:
  "extractText (\<lambda>its. its) exDoc 1 =
     Some (''--- [Page 1] ---'' @ newline @ ''Top'' @ newline @ ''Hello World'' @ newline
           @ newline @ ''--- [Page 3] ---'' @ newline @ ''x'' @ newline)
   \<and> pageMarker 2 = ''--- [Page 3] ---''"
proof -
  have nf: "\<not> (\<exists>i \<in> set [int 1 - 1, int 1, int 1 + 1]. fetchFails exDoc i)"
    by (simp add: fetchFails_def exDoc_def exTextPage_def numPages_def)
  have ev: "join newline
      (map (\<lambda>i. pageMarker i @ newline @ pageBody (\<lambda>its. its) (pageItems exDoc i) @ newline)
         (filter (\<lambda>i. 0 \<le> i \<and> i < int (numPages exDoc) \<and> pageItems exDoc i \<noteq> [])
            [int 1 - 1, int 1, int 1 + 1]))
    = ''--- [Page 1] ---'' @ newline @ ''Top'' @ newline @ ''Hello World'' @ newline
      @ newline @ ''--- [Page 3] ---'' @ newline @ ''x'' @ newline"
    by code_simp
  have three: "showNat (nat (2 + 1)) = ''3''"
    by code_simp
  have "extractText (\<lambda>its. its) exDoc 1 =
     (if \<exists>i \<in> set [int 1 - 1, int 1, int 1 + 1]. fetchFails exDoc i then None
      else Some (join newline
             (map (\<lambda>i. pageMarker i @ newline @ pageBody (\<lambda>its. its) (pageItems exDoc i) @ newline)
                (filter (\<lambda>i. 0 \<le> i \<and> i < int (numPages exDoc) \<and> pageItems exDoc i \<noteq> [])
                   [int 1 - 1, int 1, int 1 + 1]))))"
    and "pageMarker 2 = ''--- [Page '' @ showNat (nat (2 + 1)) @ ''] ---''"
    using context_window [of "\<lambda>its. its" exDoc 1 2] by simp_all
  then show ?thesis
    using nf ev three by (simp only: if_False append.simps)
qed

text \<open>
  C8. For points \<open>p 0 .. p n\<close> with \<open>n \<ge> 1\<close>, \<open>drawSmoothPath\<close> begins a path at
  \<open>p 0\<close>, draws for every \<open>i\<close> from 1 to \<open>n - 1\<close> a quadratic curve with control
  point \<open>p i\<close> that ends at the midpoint of \<open>p i\<close> and \<open>p (i + 1)\<close>, finishes
  with a straight segment to \<open>p n\<close> and strokes the path, every coordinate multiplied
  by the scale of its axis. A single point is drawn as a segment from the point to
  itself (a dot, with round line caps). The overlay draws the stored annotation, when the
  page has one, with the viewport's width and height as scales, and then the stroke in
  progress, when its path is not empty, with scale 1 and the active tool's colour and
  width, whether or not the page has a stored annotation; with neither it only sets
  the line cap and join. This overlay, for the props of the render and the page's
  viewport at the render's scale, is what a render that was not cancelled writes when
  its render task has finished.
\<close>

theorem smooth_path:
  "(2 \<le> length pts \<longrightarrow>
      drawSmoothPath pts sx sy =
        [BeginPath, MoveTo (px (pts ! 0) * sx) (py (pts ! 0) * sy)]
        @ map (\<lambda>i. QuadraticCurveTo (px (pts ! i) * sx) (py (pts ! i) * sy)
                   ((px (pts ! i) + px (pts ! (i + 1))) / 2 * sx)
                   ((py (pts ! i) + py (pts ! (i + 1))) / 2 * sy))
            [1..<length pts - 1]
        @ [LineTo (px (last pts) * sx) (py (last pts) * sy), Stroke])
   \<and> drawSmoothPath [p] sx sy
       = [BeginPath, MoveTo (px p * sx) (py p * sy), LineTo (px p * sx) (py p * sy), Stroke]
   \<and> drawSmoothPath [] sx sy = []
   \<and> renderOverlay t scale vp (Some a) cur =
        [SetLineCap ''round'', SetLineJoin ''round'',
         SetStrokeStyle (color a), SetLineWidth (width a * scale)]
        @ drawSmoothPath (points a) (vp_width vp) (vp_height vp)
        @ (if cur = [] then []
           else [SetStrokeStyle (if mode t = Pen then penColor t else highlighterColor t),
                 SetLineWidth ((if mode t = Pen then penWidth t else highlighterWidth t) * scale)]
                @ drawSmoothPath cur 1 1)
   \<and> renderOverlay t scale vp None cur =
        [SetLineCap ''round'', SetLineJoin ''round'']
        @ (if cur = [] then []
           else [SetStrokeStyle (if mode t = Pen then penColor t else highlighterColor t),
                 SetLineWidth ((if mode t = Pen then penWidth t else highlighterWidth t) * scale)]
                @ drawSmoothPath cur 1 1)
   \<and> (k < length (tasks sf) \<and> phase (tasks sf ! k) = Rendering \<and> \<not> isCancelled (tasks sf ! k) \<longrightarrow>
        sf_log (renderStep sf (RenderSettled k True)) =
          sf_log sf @ [Wrote k (Overlay
            (renderOverlay (r_tools (props (tasks sf ! k))) (r_scale (props (tasks sf ! k)))
               (getViewport (sf_page sf) (r_scale (props (tasks sf ! k))))
               (r_annotation (props (tasks sf ! k))) (r_currentPath (props (tasks sf ! k)))))])"
proof -
  have many: "drawSmoothPath pts sx sy =
        [BeginPath, MoveTo (px (pts ! 0) * sx) (py (pts ! 0) * sy)]
        @ map (\<lambda>i. QuadraticCurveTo (px (pts ! i) * sx) (py (pts ! i) * sy)
                   ((px (pts ! i) + px (pts ! (i + 1))) / 2 * sx)
                   ((py (pts ! i) + py (pts ! (i + 1))) / 2 * sy))
            [1..<length pts - 1]
        @ [LineTo (px (last pts) * sx) (py (last pts) * sy), Stroke]"
    if "2 \<le> length pts"
  proof -
    have ne: "pts \<noteq> []"
      using that by auto
    then have "pts ! (length pts - 1) = last pts"
      by (simp add: last_conv_nth)
    then show ?thesis
      using that ne by (simp add: drawSmoothPath_def curveLoop_map)
  qed
  have one: "drawSmoothPath [p] sx sy
       = [BeginPath, MoveTo (px p * sx) (py p * sy), LineTo (px p * sx) (py p * sy), Stroke]"
    by (simp add: drawSmoothPath_def)
  have none: "drawSmoothPath [] sx sy = []"
    by (simp add: drawSmoothPath_def)
  have over: "renderOverlay t scale vp (Some a) cur =
        [SetLineCap ''round'', SetLineJoin ''round'',
         SetStrokeStyle (color a), SetLineWidth (width a * scale)]
        @ drawSmoothPath (points a) (vp_width vp) (vp_height vp)
        @ (if cur = [] then []
           else [SetStrokeStyle (if mode t = Pen then penColor t else highlighterColor t),
                 SetLineWidth ((if mode t = Pen then penWidth t else highlighterWidth t) * scale)]
                @ drawSmoothPath cur 1 1)"
    by (simp add: renderOverlay_def)
  have bare: "renderOverlay t scale vp None cur =
        [SetLineCap ''round'', SetLineJoin ''round'']
        @ (if cur = [] then []
           else [SetStrokeStyle (if mode t = Pen then penColor t else highlighterColor t),
                 SetLineWidth ((if mode t = Pen then penWidth t else highlighterWidth t) * scale)]
                @ drawSmoothPath cur 1 1)"
    by (simp add: renderOverlay_def)
  have eff: "sf_log (renderStep sf (RenderSettled k True)) =
          sf_log sf @ [Wrote k (Overlay
            (renderOverlay (r_tools (props (tasks sf ! k))) (r_scale (props (tasks sf ! k)))
               (getViewport (sf_page sf) (r_scale (props (tasks sf ! k))))
               (r_annotation (props (tasks sf ! k))) (r_currentPath (props (tasks sf ! k)))))]"
    if "k < length (tasks sf)" "phase (tasks sf ! k) = Rendering" "\<not> isCancelled (tasks sf ! k)"
    using that by (simp add: afterRender_def setPhase_def Let_def)
  show ?thesis
    using many one none over bare eff by blast
qed

theorem smooth_path_witness:
  "drawSmoothPath [\<lparr>px = 0, py = 0\<rparr>, \<lparr>px = 1 / 2, py = 1 / 4\<rparr>, \<lparr>px = 1, py = 1\<rparr>] 600 800
     = [BeginPath, MoveTo 0 0, QuadraticCurveTo 300 200 450 500, LineTo 600 800, Stroke]
   \<and> renderOverlay exTools 2 \<lparr>vp_width = 600, vp_height = 800\<rparr> None
        [\<lparr>px = 10, py = 20\<rparr>, \<lparr>px = 30, py = 40\<rparr>, \<lparr>px = 50, py = 20\<rparr>]
     = [SetLineCap ''round'', SetLineJoin ''round'', SetStrokeStyle ''#ef4444'', SetLineWidth 8,
        BeginPath, MoveTo 10 20, QuadraticCurveTo 30 40 40 30, LineTo 50 20, Stroke]
   \<and> renderOverlay exTools 2 \<lparr>vp_width = 600, vp_height = 800\<rparr> (Some exStroke)
        [\<lparr>px = 10, py = 20\<rparr>]
     = [SetLineCap ''round'', SetLineJoin ''round'', SetStrokeStyle ''#ef4444'', SetLineWidth 8,
        BeginPath, MoveTo 300 400, LineTo 300 400, Stroke,
        SetStrokeStyle ''#ef4444'', SetLineWidth 8,
        BeginPath, MoveTo 10 20, LineTo 10 20, Stroke]"
proof -
  let ?three = "[\<lparr>px = 0, py = 0\<rparr>, \<lparr>px = 1 / 2, py = 1 / 4\<rparr>, \<lparr>px = 1::real, py = 1::real\<rparr>]"
  let ?cur = "[\<lparr>px = 10, py = 20\<rparr>, \<lparr>px = 30, py = 40\<rparr>, \<lparr>px = 50::real, py = 20::real\<rparr>]"
  let ?vp = "\<lparr>vp_width = 600, vp_height = 800\<rparr>"
  have len: "(2::nat) \<le> length ?three" "(2::nat) \<le> length ?cur"
    by simp_all
  have upt: "[1..<length ?three - 1] = [1]" "[1..<length ?cur - 1] = [1]"
    by (simp_all add: upt_conv_Cons)
  have path: "drawSmoothPath ?three 600 800
     = [BeginPath, MoveTo 0 0, QuadraticCurveTo 300 200 450 500, LineTo 600 800, Stroke]"
    using smooth_path [of ?three 600 800] len(1) upt(1) by simp
  have cur: "drawSmoothPath ?cur 1 1
     = [BeginPath, MoveTo 10 20, QuadraticCurveTo 30 40 40 30, LineTo 50 20, Stroke]"
    using smooth_path [of ?cur 1 1] len(2) upt(2) by simp
  have dot: "drawSmoothPath [\<lparr>px = 10, py = 20\<rparr>] 1 1 = [BeginPath, MoveTo 10 20, LineTo 10 20, Stroke]"
    "drawSmoothPath [\<lparr>px = 1 / 2, py = 1 / 2\<rparr>] 600 800 = [BeginPath, MoveTo 300 400, LineTo 300 400, Stroke]"
    using smooth_path [of "[]" 1 1 "\<lparr>px = 10, py = 20\<rparr>"]
      smooth_path [of "[]" 600 800 "\<lparr>px = 1 / 2, py = 1 / 2\<rparr>"] by simp_all
  have o1: "renderOverlay exTools 2 ?vp None ?cur
     = [SetLineCap ''round'', SetLineJoin ''round'', SetStrokeStyle ''#ef4444'', SetLineWidth 8,
        BeginPath, MoveTo 10 20, QuadraticCurveTo 30 40 40 30, LineTo 50 20, Stroke]"
    using smooth_path [of "[]" 1 1 "\<lparr>px = 0, py = 0\<rparr>" exTools 2 ?vp exStroke ?cur] cur
    by (simp add: exTools_def)
  have o2: "renderOverlay exTools 2 ?vp (Some exStroke) [\<lparr>px = 10, py = 20\<rparr>]
     = [SetLineCap ''round'', SetLineJoin ''round'', SetStrokeStyle ''#ef4444'', SetLineWidth 8,
        BeginPath, MoveTo 300 400, LineTo 300 400, Stroke,
        SetStrokeStyle ''#ef4444'', SetLineWidth 8,
        BeginPath, MoveTo 10 20, LineTo 10 20, Stroke]"
    using smooth_path [of "[]" 1 1 "\<lparr>px = 0, py = 0\<rparr>" exTools 2 ?vp exStroke "[\<lparr>px = 10, py = 20\<rparr>]"] dot
    by (simp add: exTools_def exStroke_def)
  show ?thesis
    using path o1 o2 by simp
qed

text \<open>
  C9. A fit-to-width request is to set the scale to the container's width minus the
  padding, divided by the current page's natural width, clamped into [0.4, 4.0]. A
  request made from the toolbar does so (lemmas \<open>fit_scale\<close> and
  \<open>clickFit_scale\<close>). The request that the load effect makes as "Initial fit for
  mobile" does not: in a window 375 wide, with a scroll container 400 wide, a first
  document whose page is 600 wide is loaded and stored, the fit runs with the state of
  the render before the document was there, returns at its first guard, and the scale
  stays 1.2, where the formula gives \<open>(400 - 32) / 600 = 46 / 75\<close>.
\<close>

theorem initial_fit_keeps_scale:
  "v_pdfDoc (loadPdf 375 (Some \<lparr>clientWidth = 400, clientHeight = 700\<rparr>)
              (Some [exLetter\<lparr>naturalWidth := 600\<rparr>]) initialView)
     = Some [exLetter\<lparr>naturalWidth := 600\<rparr>]
   \<and> v_scale (loadPdf 375 (Some \<lparr>clientWidth = 400, clientHeight = 700\<rparr>)
              (Some [exLetter\<lparr>naturalWidth := 600\<rparr>]) initialView) = 1.2
   \<and> min (max ((real_of_int 400 - 32) / naturalWidth (exLetter\<lparr>naturalWidth := 600\<rparr>)) 0.4) 4.0
       = (46 / 75 :: real)"
  by (simp add: loadPdf_def initialView_def handleFit_def exLetter_def)

theorem initial_fit_keeps_scale_witness:
  "v_scale (loadPdf 375 (Some \<lparr>clientWidth = 400, clientHeight = 700\<rparr>)
              (Some [exLetter\<lparr>naturalWidth := 600\<rparr>]) initialView)
     \<noteq> min (max ((real_of_int 400 - 32) / naturalWidth (exLetter\<lparr>naturalWidth := 600\<rparr>)) 0.4) 4.0"
  using initial_fit_keeps_scale by simp

text \<open>
  C10. While the session is open, the handler sends for a captured buffer exactly one
  message, the encoded buffer, when the largest absolute sample of the buffer is
  strictly above the threshold 0.0025, and sends nothing when it is at or below the
  threshold. The largest absolute sample is what the loop computes (0 for an empty
  buffer).
\<close>

theorem noise_gate:
  "maxAmplitudeLoop 0 buf = Max (insert 0 (abs ` set buf))
   \<and> noiseThreshold = 0.0025
   \<and> (Max (insert 0 (abs ` set buf)) > 0.0025 \<longrightarrow>
        onaudioprocess enc SessionOpen buf = [Media ''audio/pcm;rate=16000'' (enc buf)])
   \<and> (Max (insert 0 (abs ` set buf)) \<le> 0.0025 \<longrightarrow> onaudioprocess enc SessionOpen buf = [])
   \<and> (onaudioprocess enc SessionOpen buf \<noteq> [] \<longleftrightarrow> (\<exists>x \<in> set buf. \<bar>x\<bar> > 0.0025))"
proof -
  have m: "maxAmplitudeLoop 0 buf = Max (insert 0 (abs ` set buf))"
    by (rule maxAmplitudeLoop_Max)
  have t: "noiseThreshold = 0.0025"
    by (simp add: noiseThreshold_def)
  have above: "onaudioprocess enc SessionOpen buf = [Media ''audio/pcm;rate=16000'' (enc buf)]"
    if "Max (insert 0 (abs ` set buf)) > 0.0025"
    using that m by (simp add: onaudioprocess_def noiseThreshold_def)
  have below: "onaudioprocess enc SessionOpen buf = []"
    if "Max (insert 0 (abs ` set buf)) \<le> 0.0025"
    using that m by (simp add: onaudioprocess_def noiseThreshold_def)
  have ex: "onaudioprocess enc SessionOpen buf \<noteq> [] \<longleftrightarrow> (\<exists>x \<in> set buf. \<bar>x\<bar> > 0.0025)"
    using maxAmplitudeLoop_exceeds [of "0.0025" 0 buf]
    by (simp add: onaudioprocess_def noiseThreshold_def)
  show ?thesis
    using m t above below ex by blast
qed

theorem noise_gate_witness:
  "onaudioprocess (\<lambda>b. ''chunk'') SessionOpen [0.001, - 0.003]
     = [Media ''audio/pcm;rate=16000'' ''chunk'']
   \<and> onaudioprocess (\<lambda>b. ''chunk'') SessionOpen [0.001, - 0.0025] = []"
proof -
  have hi: "Max (insert 0 (abs ` set [0.001, - 0.003 :: real])) > 0.0025"
    by simp
  have lo: "Max (insert 0 (abs ` set [0.001, - 0.0025 :: real])) \<le> 0.0025"
    by simp
  show ?thesis
    using noise_gate [of "[0.001, - 0.003]" "\<lambda>b. ''chunk''"] hi
      noise_gate [of "[0.001, - 0.0025]" "\<lambda>b. ''chunk''"] lo
    by blast
qed

end
